theory Spec2Isabelle
  imports Main "HOL-Library.Word"
begin

section \<open>The uevent router of the container manager daemon (daemon/uevent.c)\<close>

text \<open>
  The development embeds the functions of \<^verbatim>\<open>daemon/uevent.c\<close> as HOL functions.
  Pointers to containers and to physical network configurations are opaque identities;
  the two routing tables are the lists the C code keeps in its two static variables.
\<close>

subsection \<open>Routing tables: data\<close>

type_synonym container = nat
  \<comment> \<open>a \<^verbatim>\<open>container_t *\<close>: only compared for equality and handed to the registry\<close>

text \<open>\<^verbatim>\<open>struct uevent_usbdev\<close>. The enum behind \<^verbatim>\<open>type\<close> is declared in uevent.h; the
  model keeps its integer value.\<close>

record uevent_usbdev =
  i_serial :: string
  id_vendor :: "16 word"
  id_product :: "16 word"
  usb_major :: int
  usb_minor :: int
  assign :: bool
  usb_type :: int

text \<open>\<^verbatim>\<open>uevent_usbdev_new\<close>: major and minor start as -1.\<close>

definition uevent_usbdev_new :: "int \<Rightarrow> 16 word \<Rightarrow> 16 word \<Rightarrow> string \<Rightarrow> bool \<Rightarrow> uevent_usbdev" where
  "uevent_usbdev_new ty vendor product serial asg =
     \<lparr>i_serial = serial, id_vendor = vendor, id_product = product,
      usb_major = -1, usb_minor = -1, assign = asg, usb_type = ty\<rparr>"

text \<open>\<^verbatim>\<open>uevent_container_dev_mapping_t\<close>: the mapping owns a copy of the device. The
  mapping has an \<^verbatim>\<open>assign\<close> field of its own, besides the one of its device.\<close>

record uevent_container_dev_mapping =
  map_container :: container
  map_usbdev :: uevent_usbdev
  map_assign :: bool

text \<open>\<^verbatim>\<open>uevent_container_dev_mapping_new\<close>: both blocks come from \<^verbatim>\<open>mem_new0\<close>, so what
  the function does not assign (the device's type, the mapping's own assign flag) is
  zero.\<close>

definition uevent_container_dev_mapping_new ::
  "container \<Rightarrow> uevent_usbdev \<Rightarrow> uevent_container_dev_mapping" where
  "uevent_container_dev_mapping_new c usbdev =
     \<lparr>map_container = c,
      map_usbdev = \<lparr>i_serial = i_serial usbdev, id_vendor = id_vendor usbdev,
                    id_product = id_product usbdev, usb_major = usb_major usbdev,
                    usb_minor = usb_minor usbdev, assign = assign usbdev, usb_type = 0\<rparr>,
      map_assign = False\<rparr>"

text \<open>\<^verbatim>\<open>container_pnet_cfg_t\<close> is declared in container.h; the router reads its name and
  its \<^verbatim>\<open>mac_filter\<close> flag.\<close>

record container_pnet_cfg =
  pnet_name :: string
  mac_filter :: bool

type_synonym mac_addr = "8 word list"
  \<comment> \<open>\<^verbatim>\<open>uint8_t mac[6]\<close>\<close>

record uevent_container_netdev_mapping =
  net_container :: container
  net_pnet_cfg :: container_pnet_cfg
  net_mac :: mac_addr

text \<open>\<^verbatim>\<open>memcmp(a, b, 6) == 0\<close> on two MAC arrays.\<close>

definition memcmp6_eq :: "mac_addr \<Rightarrow> mac_addr \<Rightarrow> bool" where
  "memcmp6_eq a b = (take 6 a = take 6 b)"

text \<open>\<^verbatim>\<open>uevent_container_netdev_mapping_new\<close>. \<^verbatim>\<open>network_str_to_mac_addr\<close> lives in
  common/network.c and is a parameter: it yields the six bytes, or fails (-1).\<close>

definition uevent_container_netdev_mapping_new ::
  "(string \<Rightarrow> mac_addr option) \<Rightarrow> container \<Rightarrow> container_pnet_cfg \<Rightarrow>
   uevent_container_netdev_mapping option" where
  "uevent_container_netdev_mapping_new network_str_to_mac_addr c cfg =
     (case network_str_to_mac_addr (pnet_name cfg) of
        None \<Rightarrow> None
      | Some mac \<Rightarrow> Some \<lparr>net_container = c, net_pnet_cfg = cfg, net_mac = mac\<rparr>)"

subsection \<open>Routing tables: the list helpers\<close>

text \<open>Modelled from the spec: \<^verbatim>\<open>list_append\<close> and \<^verbatim>\<open>list_remove\<close> belong to common/list.c,
  which is not part of the sources at hand. The specification calls the tables ordered
  sequences; \<^verbatim>\<open>list_append\<close> adds the element at the end. \<^verbatim>\<open>list_remove\<close> unlinks the node
  whose data pointer is the given one. Every node of a table holds a mapping allocated
  for it alone, so a data pointer names one node, and the model names that node by its
  position in the list.\<close>

definition list_append :: "'a list \<Rightarrow> 'a \<Rightarrow> 'a list" where
  "list_append l x = l @ [x]"

definition list_remove :: "'a list \<Rightarrow> nat \<Rightarrow> 'a list" where
  "list_remove l i = take i l @ drop (Suc i) l"

subsection \<open>Routing tables: register and unregister\<close>

definition uevent_register_usbdevice ::
  "container \<Rightarrow> uevent_usbdev \<Rightarrow> uevent_container_dev_mapping list \<Rightarrow>
   int \<times> uevent_container_dev_mapping list" where
  "uevent_register_usbdevice c usbdev tbl =
     (0, list_append tbl (uevent_container_dev_mapping_new c usbdev))"

text \<open>The test of the loop in \<^verbatim>\<open>uevent_unregister_usbdevice\<close>; \<^verbatim>\<open>strcmp\<close> on two
  NUL-free strings is equality.\<close>

definition usb_mapping_matches ::
  "container \<Rightarrow> uevent_usbdev \<Rightarrow> uevent_container_dev_mapping \<Rightarrow> bool" where
  "usb_mapping_matches c usbdev m =
     (map_container m = c \<and>
      id_vendor (map_usbdev m) = id_vendor usbdev \<and>
      id_product (map_usbdev m) = id_product usbdev \<and>
      i_serial (map_usbdev m) = i_serial usbdev)"

text \<open>The loop runs over the whole list without a \<^verbatim>\<open>break\<close> and overwrites
  \<^verbatim>\<open>mapping_to_remove\<close> at every match. \<open>i\<close> is the position of the node the loop is at,
  \<open>found\<close> the value of \<^verbatim>\<open>mapping_to_remove\<close> so far (\<open>None\<close> for \<^verbatim>\<open>NULL\<close>).\<close>

primrec mapping_to_remove :: "('a \<Rightarrow> bool) \<Rightarrow> 'a list \<Rightarrow> nat \<Rightarrow> nat option \<Rightarrow> nat option" where
  "mapping_to_remove P [] i found = found"
| "mapping_to_remove P (m # l) i found =
     mapping_to_remove P l (Suc i) (if P m then Some i else found)"

definition uevent_unregister_usbdevice ::
  "container \<Rightarrow> uevent_usbdev \<Rightarrow> uevent_container_dev_mapping list \<Rightarrow>
   int \<times> uevent_container_dev_mapping list" where
  "uevent_unregister_usbdevice c usbdev tbl =
     (case mapping_to_remove (usb_mapping_matches c usbdev) tbl 0 None of
        None \<Rightarrow> (-1, tbl)
      | Some i \<Rightarrow> (0, list_remove tbl i))"

definition uevent_register_netdev ::
  "(string \<Rightarrow> mac_addr option) \<Rightarrow> container \<Rightarrow> container_pnet_cfg \<Rightarrow>
   uevent_container_netdev_mapping list \<Rightarrow> int \<times> uevent_container_netdev_mapping list" where
  "uevent_register_netdev network_str_to_mac_addr c cfg tbl =
     (case uevent_container_netdev_mapping_new network_str_to_mac_addr c cfg of
        None \<Rightarrow> (-1, tbl)
      | Some mapping \<Rightarrow> (0, list_append tbl mapping))"

definition net_mapping_matches ::
  "container \<Rightarrow> mac_addr \<Rightarrow> uevent_container_netdev_mapping \<Rightarrow> bool" where
  "net_mapping_matches c mac m = (net_container m = c \<and> memcmp6_eq (net_mac m) mac)"

definition uevent_unregister_netdev ::
  "container \<Rightarrow> mac_addr \<Rightarrow> uevent_container_netdev_mapping list \<Rightarrow>
   int \<times> uevent_container_netdev_mapping list" where
  "uevent_unregister_netdev c mac tbl =
     (case mapping_to_remove (net_mapping_matches c mac) tbl 0 None of
        None \<Rightarrow> (-1, tbl)
      | Some i \<Rightarrow> (0, list_remove tbl i))"

text \<open>The identity of a USB mapping, and the table invariant of the specification: no
  two entries with the same identity.\<close>

definition usb_identity ::
  "uevent_container_dev_mapping \<Rightarrow> container \<times> 16 word \<times> 16 word \<times> string" where
  "usb_identity m =
     (map_container m, id_vendor (map_usbdev m), id_product (map_usbdev m),
      i_serial (map_usbdev m))"

definition usb_table_unique :: "uevent_container_dev_mapping list \<Rightarrow> bool" where
  "usb_table_unique tbl = distinct (map usb_identity tbl)"

subsection \<open>C strings in a byte buffer\<close>

text \<open>A \<^verbatim>\<open>char *\<close> into a buffer is modelled by the bytes from the pointer to the end of the
  buffer. \<open>cstr m\<close> is the C string that starts there, \<open>strlen\<close> its length, which exists
  when the buffer holds a terminator; a scan that finds none runs out of the buffer.
  \<open>strncmp0 a b n\<close> is \<^verbatim>\<open>strncmp(a, b, n) == 0\<close> and \<open>strcmp0 a b\<close> is \<^verbatim>\<open>strcmp(a, b) == 0\<close>:
  both compare the strings up to their terminators. \<open>strstr\<close> gives the offset of the
  first occurrence.\<close>

abbreviation NUL :: char where "NUL \<equiv> CHR 0x00"

definition cstr :: "string \<Rightarrow> string" where
  "cstr m = takeWhile (\<lambda>c. c \<noteq> NUL) m"

definition strlen :: "string \<Rightarrow> nat option" where
  "strlen m = (if NUL \<in> set m then Some (length (cstr m)) else None)"

definition strncmp0 :: "string \<Rightarrow> string \<Rightarrow> nat \<Rightarrow> bool" where
  "strncmp0 a b n = (take n (cstr a) = take n (cstr b))"

definition strcmp0 :: "string \<Rightarrow> string \<Rightarrow> bool" where
  "strcmp0 a b = (cstr a = cstr b)"

fun strstr :: "string \<Rightarrow> string \<Rightarrow> nat option" where
  "strstr [] needle = (if needle = [] then Some 0 else None)"
| "strstr (c # s) needle =
     (if take (length needle) (c # s) = needle then Some 0
      else map_option Suc (strstr s needle))"

text \<open>\<^verbatim>\<open>atoi\<close> reads blanks, a sign and decimal digits (a value outside \<^verbatim>\<open>int\<close> is undefined
  in C; the model keeps the number). \<open>scan_hx\<close> is one \<^verbatim>\<open>%hx\<close> conversion of \<^verbatim>\<open>sscanf\<close>:
  blanks, a sign, an optional \<^verbatim>\<open>0x\<close>, hexadecimal digits, stored as \<^verbatim>\<open>unsigned short\<close>; it
  yields the value and the rest of the input, or fails when no digit is there.\<close>

definition isspace :: "char \<Rightarrow> bool" where
  "isspace c = (c \<in> set [CHR '' '', CHR 0x09, CHR 0x0A, CHR 0x0B, CHR 0x0C, CHR 0x0D])"

definition digit_val :: "char \<Rightarrow> nat option" where
  "digit_val c =
     (let n = of_char c :: nat in if 48 \<le> n \<and> n \<le> 57 then Some (n - 48) else None)"

definition xdigit_val :: "char \<Rightarrow> nat option" where
  "xdigit_val c =
     (let n = of_char c :: nat in
      if 48 \<le> n \<and> n \<le> 57 then Some (n - 48)
      else if 97 \<le> n \<and> n \<le> 102 then Some (n - 87)
      else if 65 \<le> n \<and> n \<le> 70 then Some (n - 55)
      else None)"

fun scan_digits :: "(char \<Rightarrow> nat option) \<Rightarrow> nat \<Rightarrow> nat \<Rightarrow> string \<Rightarrow> nat \<times> string" where
  "scan_digits dv base acc [] = (acc, [])"
| "scan_digits dv base acc (c # s) =
     (case dv c of None \<Rightarrow> (acc, c # s)
      | Some d \<Rightarrow> scan_digits dv base (acc * base + d) s)"

definition atoi :: "string \<Rightarrow> int" where
  "atoi s =
     (case dropWhile isspace (cstr s) of
        [] \<Rightarrow> 0
      | c # r \<Rightarrow>
          if c = CHR ''-'' then - int (fst (scan_digits digit_val 10 0 r))
          else if c = CHR ''+'' then int (fst (scan_digits digit_val 10 0 r))
          else int (fst (scan_digits digit_val 10 0 (c # r))))"

definition scan_hx :: "string \<Rightarrow> (16 word \<times> string) option" where
  "scan_hx s =
     (let t = dropWhile isspace s;
          (neg, u) = (case t of [] \<Rightarrow> (False, [])
                      | c # r \<Rightarrow> if c = CHR ''-'' then (True, r)
                                 else if c = CHR ''+'' then (False, r) else (False, c # r));
          v = (case u of
                 a # b # d # r \<Rightarrow>
                   if a = CHR ''0'' \<and> (b = CHR ''x'' \<or> b = CHR ''X'') \<and> xdigit_val d \<noteq> None
                   then d # r else u
               | _ \<Rightarrow> u)
      in case v of [] \<Rightarrow> None
         | c # r \<Rightarrow>
             (if xdigit_val c = None then None
              else let (n, rest) = scan_digits xdigit_val 16 0 (c # r)
                   in Some (if neg then - of_nat n else of_nat n, rest)))"


subsection \<open>The event\<close>

text \<open>The fields of \<^verbatim>\<open>struct uevent\<close> that hold a \<^verbatim>\<open>char *\<close>: the null pointer (a zeroed
  structure), the string literal \<^verbatim>\<open>""\<close> that \<^verbatim>\<open>uevent_parse\<close> assigns as default, or
  \<^verbatim>\<open>msg.raw + off\<close>. \<open>raw\<close> is the buffer of the union \<^verbatim>\<open>msg\<close>; its header view \<^verbatim>\<open>msg.nlh\<close> is
  read off the first bytes of \<open>raw\<close> further down. \<open>utype\<close> is the field \<^verbatim>\<open>type\<close>.\<close>

datatype strptr = Null | Empty_Lit | In_Raw nat

record uevent =
  raw :: string
  msg_len :: nat
  action :: strptr
  subsystem :: strptr
  devname :: strptr
  devpath :: strptr
  devtype :: strptr
  driver :: strptr
  major :: int
  minor :: int
  utype :: strptr
  product :: strptr
  id_vendor_id :: "16 word"
  id_model_id :: "16 word"
  id_serial_short :: strptr
  interface :: strptr
  synth_uuid :: strptr

text \<open>The string behind a field, where it can be read at all.\<close>

definition ptr_str :: "string \<Rightarrow> strptr \<Rightarrow> string option" where
  "ptr_str buf p =
     (case p of Null \<Rightarrow> None | Empty_Lit \<Rightarrow> Some []
      | In_Raw off \<Rightarrow> if NUL \<in> set (drop off buf) then Some (cstr (drop off buf)) else None)"

text \<open>\<^verbatim>\<open>sscanf(raw_p, "%hx", &field)\<close>: the field keeps its value when nothing converts.\<close>

definition sscanf_hx :: "string \<Rightarrow> 16 word \<Rightarrow> 16 word" where
  "sscanf_hx s old = (case scan_hx (cstr s) of None \<Rightarrow> old | Some (v, _) \<Rightarrow> v)"

text \<open>The \<^verbatim>\<open>if\<close> chain in the loop of \<^verbatim>\<open>uevent_parse\<close>, for the entry at \<open>raw_p\<close>: the pointer
  behind the prefix it matched, and the event with the field assigned.\<close>

definition parse_entry :: "nat \<Rightarrow> uevent \<Rightarrow> nat \<times> uevent" where
  "parse_entry raw_p uevent =
     (let m = drop raw_p (raw uevent) in
      if strncmp0 m ''ACTION='' 7 then (raw_p + 7, uevent\<lparr>action := In_Raw (raw_p + 7)\<rparr>)
      else if strncmp0 m ''DEVPATH='' 8 then (raw_p + 8, uevent\<lparr>devpath := In_Raw (raw_p + 8)\<rparr>)
      else if strncmp0 m ''SUBSYSTEM='' 10 then
        (raw_p + 10, uevent\<lparr>subsystem := In_Raw (raw_p + 10)\<rparr>)
      else if strncmp0 m ''MAJOR='' 6 then
        (raw_p + 6, uevent\<lparr>major := atoi (drop (raw_p + 6) (raw uevent))\<rparr>)
      else if strncmp0 m ''MINOR='' 6 then
        (raw_p + 6, uevent\<lparr>minor := atoi (drop (raw_p + 6) (raw uevent))\<rparr>)
      else if strncmp0 m ''DEVNAME='' 8 then (raw_p + 8, uevent\<lparr>devname := In_Raw (raw_p + 8)\<rparr>)
      else if strncmp0 m ''DEVTYPE='' 8 then (raw_p + 8, uevent\<lparr>devtype := In_Raw (raw_p + 8)\<rparr>)
      else if strncmp0 m ''DRIVER='' 7 then (raw_p + 7, uevent\<lparr>driver := In_Raw (raw_p + 7)\<rparr>)
      else if strncmp0 m ''PRODUCT='' 8 then (raw_p + 8, uevent\<lparr>product := In_Raw (raw_p + 8)\<rparr>)
      else if strncmp0 m ''ID_VENDOR_ID='' 13 then
        (raw_p + 13,
         uevent\<lparr>id_vendor_id := sscanf_hx (drop (raw_p + 13) (raw uevent)) (id_vendor_id uevent)\<rparr>)
      else if strncmp0 m ''ID_MODEL_ID='' 12 then
        (raw_p + 12,
         uevent\<lparr>id_model_id := sscanf_hx (drop (raw_p + 12) (raw uevent)) (id_model_id uevent)\<rparr>)
      else if strncmp0 m ''ID_SERIAL_SHORT='' 16 then
        (raw_p + 16, uevent\<lparr>id_serial_short := In_Raw (raw_p + 16)\<rparr>)
      else if strncmp0 m ''INTERFACE='' 10 then
        (raw_p + 10, uevent\<lparr>interface := In_Raw (raw_p + 10)\<rparr>)
      else if strncmp0 m ''SYNTH_UUID='' 11 then
        (raw_p + 11, uevent\<lparr>synth_uuid := In_Raw (raw_p + 11)\<rparr>)
      else (raw_p, uevent))"

lemma parse_entry_raw: "raw (snd (parse_entry p ev)) = raw ev"
  by (simp add: parse_entry_def Let_def)

lemma parse_entry_msg_len: "msg_len (snd (parse_entry p ev)) = msg_len ev"
  by (simp add: parse_entry_def Let_def)

lemma parse_entry_pos: "p \<le> fst (parse_entry p ev)"
  by (simp add: parse_entry_def Let_def)

text \<open>The \<^verbatim>\<open>while\<close> loop of \<^verbatim>\<open>uevent_parse\<close>. It ends at an empty entry, or when the pointer
  behind the terminator of an entry has reached \<^verbatim>\<open>msg.raw + msg_len\<close>. \<open>None\<close> stands for
  a read outside the buffer. (\<^verbatim>\<open>uevent_trace\<close>, which \<^verbatim>\<open>uevent_parse\<close> calls first, only
  reads the buffer and logs; it is not part of the model.)\<close>

function parse_loop :: "nat \<Rightarrow> uevent \<Rightarrow> uevent option" where
  "parse_loop raw_p uevent =
     (if length (raw uevent) \<le> raw_p then None
      else if raw uevent ! raw_p = NUL then Some uevent
      else (case parse_entry raw_p uevent of
              (q, ev) \<Rightarrow>
                (case strlen (drop q (raw ev)) of
                   None \<Rightarrow> None
                 | Some n \<Rightarrow>
                     if msg_len ev \<le> q + n + 1 then Some ev else parse_loop (q + n + 1) ev)))"
  by pat_completeness auto
termination
  apply (relation "measure (\<lambda>(p, ev). length (raw ev) - p)")
   apply simp
  subgoal for raw_p uevent q ev n
    using parse_entry_raw [of raw_p uevent] parse_entry_pos [of raw_p uevent]
    by (cases "parse_entry raw_p uevent") auto
  done

declare parse_loop.simps [simp del]

definition uevent_parse :: "uevent \<Rightarrow> nat \<Rightarrow> uevent option" where
  "uevent_parse uevent raw_p =
     parse_loop raw_p
       (uevent\<lparr>action := Empty_Lit, devpath := Empty_Lit, devname := Empty_Lit,
               devtype := Empty_Lit, major := -1, minor := -1, subsystem := Empty_Lit,
               product := Empty_Lit, id_model_id := 0, id_vendor_id := 0,
               id_serial_short := Empty_Lit, interface := Empty_Lit, synth_uuid := Empty_Lit\<rparr>)"


text \<open>The string a field points to. After \<^verbatim>\<open>uevent_parse\<close> has returned, every field it
  initialises is the literal or points into a NUL-terminated entry of the buffer.\<close>

definition field_str :: "uevent \<Rightarrow> strptr \<Rightarrow> string" where
  "field_str uevent p = (case p of In_Raw off \<Rightarrow> cstr (drop off (raw uevent)) | _ \<Rightarrow> [])"

subsection \<open>The udev header, a view of the first 40 bytes of the buffer\<close>

text \<open>\<^verbatim>\<open>struct udev_monitor_netlink_header\<close>: eight bytes of prefix and eight
  \<^verbatim>\<open>unsigned int\<close>, 40 bytes in all, in a union with the raw buffer. The fields are the
  byte ranges below.\<close>

definition nlh_size :: nat where
  "nlh_size = 40"

text \<open>An \<^verbatim>\<open>unsigned int\<close> of the header is four bytes in the byte order of the host.\<close>

definition word_bytes :: "bool \<Rightarrow> int \<Rightarrow> string" where
  "word_bytes big_endian w =
     (let le = [char_of (w mod 256), char_of (w div 256 mod 256),
                char_of (w div 65536 mod 256), char_of (w div 16777216 mod 256)]
      in if big_endian then rev le else le)"

definition bytes_word :: "bool \<Rightarrow> string \<Rightarrow> int" where
  "bytes_word big_endian bs =
     foldr (\<lambda>c w. of_char c + 256 * w) (if big_endian then rev (take 4 bs) else take 4 bs) 0"

definition nlh_prefix :: "string \<Rightarrow> string" where
  "nlh_prefix buf = take 8 buf"

definition nlh_magic :: "string \<Rightarrow> string" where
  "nlh_magic buf = take 4 (drop 8 buf)"

definition nlh_header_size :: "string \<Rightarrow> string" where
  "nlh_header_size buf = take 4 (drop 12 buf)"

definition nlh_properties_off :: "string \<Rightarrow> string" where
  "nlh_properties_off buf = take 4 (drop 16 buf)"

definition nlh_properties_len :: "string \<Rightarrow> string" where
  "nlh_properties_len buf = take 4 (drop 20 buf)"

definition nlh_filters :: "string \<Rightarrow> string" where
  "nlh_filters buf = take 16 (drop 24 buf)"

subsection \<open>Rewriting one member\<close>

text \<open>\<open>memcpy dst d src s n\<close> copies \<open>n\<close> bytes from offset \<open>s\<close> of \<open>src\<close> to offset \<open>d\<close> of
  \<open>dst\<close>; \<open>None\<close> when either range leaves its buffer.\<close>

definition memcpy :: "string \<Rightarrow> nat \<Rightarrow> string \<Rightarrow> nat \<Rightarrow> nat \<Rightarrow> string option" where
  "memcpy dst d src s n =
     (if d + n \<le> length dst \<and> s + n \<le> length src
      then Some (take d dst @ take n (drop s src) @ drop (d + n) dst) else None)"

text \<open>\<^verbatim>\<open>uevent_replace_member\<close>. \<open>newevent\<close> is the block \<^verbatim>\<open>mem_new\<close> returns, whose contents
  are not initialised and therefore a parameter; \<open>big_endian\<close> is the byte order of the
  host. \<open>oldmember\<close> is the offset of the old string in \<^verbatim>\<open>msg.raw\<close>, \<open>newmember\<close> the bytes
  at the new string. The steps are those of the source, in its order: the header copy,
  the assignment to \<^verbatim>\<open>properties_len\<close>, the copy of the bytes before the member, the
  \<^verbatim>\<open>strcpy\<close> of the new member, the copy of the remainder, and the parse from the start
  of the new buffer. \<open>None\<close> stands for a failed \<^verbatim>\<open>ASSERT\<close> or a copy outside a buffer
  (the source checks no capacity).\<close>

definition uevent_replace_member ::
  "bool \<Rightarrow> uevent \<Rightarrow> uevent \<Rightarrow> nat \<Rightarrow> string \<Rightarrow> uevent option" where
  "uevent_replace_member big_endian newevent uevent oldmember newmember =
     (if \<not> (0 < oldmember \<and> oldmember < msg_len uevent) then None
      else case strlen (drop oldmember (raw uevent)) of
        None \<Rightarrow> None
      | Some old_len \<Rightarrow>
          let new_len = length (cstr newmember);
              diff_len = int new_len - int old_len;
              off_member = oldmember;
              off_after_old = off_member + old_len + 1;
              off_after_new = off_member + new_len + 1
          in if msg_len uevent < off_after_old then None
             else
               case memcpy (raw newevent) 0 (raw uevent) 0 nlh_size of
                 None \<Rightarrow> None
               | Some r1 \<Rightarrow>
               case memcpy r1 20
                      (word_bytes big_endian
                         ((bytes_word big_endian (nlh_properties_len (raw uevent)) + diff_len) mod 2 ^ 32))
                      0 4 of
                 None \<Rightarrow> None
               | Some r2 \<Rightarrow>
               case memcpy r2 0 (raw uevent) 0 off_member of
                 None \<Rightarrow> None
               | Some r3 \<Rightarrow>
               case memcpy r3 off_member (cstr newmember @ [NUL]) 0 (new_len + 1) of
                 None \<Rightarrow> None
               | Some r4 \<Rightarrow>
               case memcpy r4 off_after_new (raw uevent) off_after_old
                      (msg_len uevent - off_after_old) of
                 None \<Rightarrow> None
               | Some r5 \<Rightarrow>
                   uevent_parse
                     (newevent\<lparr>raw := r5, msg_len := nat (int (msg_len uevent) + diff_len)\<rparr>) 0)"

text \<open>\<^verbatim>\<open>uevent_replace_devpath_new\<close>, on strings without terminator: the first occurrence
  of \<open>oldstr\<close> replaced, \<open>None\<close> (\<^verbatim>\<open>NULL\<close>) when there is none.\<close>

definition uevent_replace_devpath_new :: "string \<Rightarrow> string \<Rightarrow> string \<Rightarrow> string option" where
  "uevent_replace_devpath_new str oldstr newstr =
     (case strstr str oldstr of
        None \<Rightarrow> None
      | Some off_old \<Rightarrow> Some (take off_old str @ newstr @ drop (off_old + length oldstr) str))"


subsection \<open>The world outside the router\<close>

text \<open>Everything the router calls outside this file is a parameter. \<open>env\<close> holds the
  answers of those calls (the container registry, the cgroup policy, the token
  subsystem, the network helpers, the file system, the allocator, the outcome of the
  forked injector), \<open>effect\<close> the calls that change something, in the order they are
  made; warnings and errors are effects, finer log levels are not recorded.
  \<^verbatim>\<open>container_state_t\<close> is declared in container.h: the model names the four states this
  file mentions and keeps the others apart by number. \<open>router\<close> is the state of the
  module: the two lists, the two counters of \<^verbatim>\<open>uevent_rename_ifi_new\<close>, and the effects so
  far.\<close>

datatype container_state =
    CONTAINER_STATE_STARTING
  | CONTAINER_STATE_BOOTING
  | CONTAINER_STATE_RUNNING
  | CONTAINER_STATE_SETUP
  | CONTAINER_STATE_OTHER nat

datatype effect =
    Log_warn
  | Log_error
  | Rename_ifi string string
  | Netif_phys_remove string
  | Netif_phys_add string
  | Add_net_iface container container_pnet_cfg
  | Inject string nat bool
  | Token_attach string string
  | Token_detach string
  | Device_allow container int int bool
  | Device_deny container int int
  | Mkdir_p string
  | Mknod string bool int int
  | Unlink string
  | Shift_ids container string
  | Add_timer uevent
  | Remove_timer

record env =
  host_big_endian :: bool
  mem_new_uevent :: uevent
  network_get_mac_by_ifname :: "string \<Rightarrow> mac_addr option"
  network_rename_ifi :: "string \<Rightarrow> string \<Rightarrow> int"
  network_interface_is_wifi :: "string \<Rightarrow> bool"
  cmld_containers_get_c0 :: "container option"
  cmld_containers :: "container list"
  cmld_container_get_by_uuid :: "string \<Rightarrow> container option"
  cmld_is_hostedmode_active :: bool
  cmld_netif_phys_remove_by_name :: "string \<Rightarrow> bool"
  cmld_token_attach :: "string \<Rightarrow> string \<Rightarrow> int"
  cmld_token_detach :: "string \<Rightarrow> int"
  uuid_new :: "string \<Rightarrow> string option"
  container_get_state :: "container \<Rightarrow> container_state"
  container_get_pid :: "container \<Rightarrow> nat"
  container_has_userns :: "container \<Rightarrow> bool"
  container_get_rootdir :: "container \<Rightarrow> string"
  container_is_device_allowed :: "container \<Rightarrow> int \<Rightarrow> int \<Rightarrow> bool"
  container_add_net_iface :: "container \<Rightarrow> container_pnet_cfg \<Rightarrow> int"
  container_shift_ids :: "container \<Rightarrow> string \<Rightarrow> int"
  inject_child_result :: "string \<Rightarrow> nat \<Rightarrow> bool \<Rightarrow> int"
  file_exists :: "string \<Rightarrow> bool"
  file_read_new :: "string \<Rightarrow> nat \<Rightarrow> string option"
  dirname :: "string \<Rightarrow> string"
  dir_mkdir_p :: "string \<Rightarrow> int"
  mknod :: "string \<Rightarrow> bool \<Rightarrow> int \<Rightarrow> int \<Rightarrow> int"
  unlink_fails :: "string \<Rightarrow> bool"

record router =
  uevent_container_dev_mapping_list :: "uevent_container_dev_mapping list"
  uevent_container_netdev_mapping_list :: "uevent_container_netdev_mapping list"
  cmld_wlan_idx :: int
  cmld_eth_idx :: int
  effects :: "effect list"

definition emit :: "effect \<Rightarrow> router \<Rightarrow> router" where
  "emit e st = st\<lparr>effects := effects st @ [e]\<rparr>"

subsection \<open>Renaming an interface\<close>

text \<open>\<^verbatim>\<open>uevent_rename_ifi_new\<close>: the name is \<^verbatim>\<open>cml\<close>, the infix and the counter of the
  infix's kind in decimal (\<^verbatim>\<open>%d\<close>; the model prints the counter as it is below \<open>2^31\<close>);
  the counter is incremented before the rename is tried.\<close>

fun decimal :: "nat \<Rightarrow> string" where
  "decimal n =
     (if n < 10 then [''0123456789'' ! n]
      else decimal (n div 10) @ [''0123456789'' ! (n mod 10)])"

declare decimal.simps [simp del]

definition uevent_rename_ifi_new ::
  "env \<Rightarrow> string \<Rightarrow> string \<Rightarrow> router \<Rightarrow> string option \<times> router" where
  "uevent_rename_ifi_new env oldname infix st =
     (let wlan = (infix = ''wlan'');
          idx = (if wlan then cmld_wlan_idx st else cmld_eth_idx st);
          newname = ''cml'' @ infix @ decimal (nat idx);
          st1 = (if wlan then st\<lparr>cmld_wlan_idx := (idx + 1) mod 2 ^ 32\<rparr>
                 else st\<lparr>cmld_eth_idx := (idx + 1) mod 2 ^ 32\<rparr>);
          st2 = emit (Rename_ifi oldname newname) st1
      in if network_rename_ifi env oldname newname \<noteq> 0 then (None, emit Log_error st2)
         else (Some newname, st2))"

text \<open>\<^verbatim>\<open>uevent_rename_interface\<close>. The outer \<open>None\<close> is an abort inside
  \<^verbatim>\<open>uevent_replace_member\<close>; the inner one is the \<^verbatim>\<open>NULL\<close> the function returns when the
  rename or the search in the device path fails.\<close>

definition uevent_rename_interface :: "env \<Rightarrow> uevent \<Rightarrow> router \<Rightarrow> (uevent option \<times> router) option" where
  "uevent_rename_interface env uevent st =
     (case uevent_rename_ifi_new env (field_str uevent (interface uevent))
             (field_str uevent (devtype uevent)) st of
        (None, st1) \<Rightarrow> Some (None, st1)
      | (Some new_ifname, st1) \<Rightarrow>
          let st2 = (if cmld_netif_phys_remove_by_name env (field_str uevent (interface uevent))
                     then emit (Netif_phys_add new_ifname)
                            (emit (Netif_phys_remove (field_str uevent (interface uevent))) st1)
                     else emit (Netif_phys_remove (field_str uevent (interface uevent))) st1)
          in case uevent_replace_devpath_new (field_str uevent (devpath uevent))
                    (field_str uevent (interface uevent)) new_ifname of
               None \<Rightarrow> Some (None, st2)
             | Some new_devpath \<Rightarrow>
                 (case interface uevent of
                    In_Raw off_if \<Rightarrow>
                      (case uevent_replace_member (host_big_endian env) (mem_new_uevent env)
                              uevent off_if new_ifname of
                         None \<Rightarrow> None
                       | Some uev_chname0 \<Rightarrow>
                       (case uevent_parse uev_chname0 0 of
                          None \<Rightarrow> None
                        | Some uev_chname \<Rightarrow>
                        (case devpath uevent of
                           In_Raw off_dp \<Rightarrow>
                             (case uevent_replace_member (host_big_endian env) (mem_new_uevent env)
                                     uevent off_dp new_devpath of
                                None \<Rightarrow> None
                              | Some uev_chdevpath0 \<Rightarrow>
                                  (case uevent_parse uev_chdevpath0 0 of
                                     None \<Rightarrow> None
                                   | Some uev_chdevpath \<Rightarrow> Some (Some uev_chname, st2)))
                         | _ \<Rightarrow> None)))
                  | _ \<Rightarrow> None))"

subsection \<open>Injecting an event into a container\<close>

text \<open>\<^verbatim>\<open>uevent_inject_into_netns\<close> forks a child that joins the namespaces and sends the
  frame. The model records the call with the bytes handed over and takes the result
  from the environment.\<close>

definition uevent_inject_into_netns ::
  "env \<Rightarrow> string \<Rightarrow> nat \<Rightarrow> nat \<Rightarrow> bool \<Rightarrow> router \<Rightarrow> int \<times> router" where
  "uevent_inject_into_netns env buf sz netns_pid join_userns st =
     (inject_child_result env (take sz buf) netns_pid join_userns,
      emit (Inject (take sz buf) netns_pid join_userns) st)"

subsection \<open>Moving a network interface\<close>

text \<open>\<^verbatim>\<open>uevent_netdev_move\<close>. \<open>netdev_lookup\<close> is its loop over the NET mappings, which stops
  at the first mapping with the MAC of the interface; \<open>netdev_target\<close> adds the fallback
  to c0; \<open>netdev_state_check\<close> is the condition of the \<^verbatim>\<open>if\<close> that guards the move, as
  written in the source.\<close>

fun netdev_lookup ::
  "mac_addr \<Rightarrow> uevent_container_netdev_mapping list \<Rightarrow>
   (container \<times> container_pnet_cfg) option" where
  "netdev_lookup iface_mac [] = None"
| "netdev_lookup iface_mac (mapping # l) =
     (if memcmp6_eq iface_mac (net_mac mapping)
      then Some (net_container mapping, net_pnet_cfg mapping)
      else netdev_lookup iface_mac l)"

definition netdev_target ::
  "env \<Rightarrow> mac_addr \<Rightarrow> uevent_container_netdev_mapping list \<Rightarrow>
   container option \<times> container_pnet_cfg option" where
  "netdev_target env iface_mac l =
     (case netdev_lookup iface_mac l of
        Some (c, cfg) \<Rightarrow> (Some c, Some cfg)
      | None \<Rightarrow> (cmld_containers_get_c0 env, None))"

definition netdev_state_check :: "env \<Rightarrow> container option \<Rightarrow> bool" where
  "netdev_state_check env container =
     (case container of
        None \<Rightarrow> True
      | Some c \<Rightarrow>
          container_get_state env c \<noteq> CONTAINER_STATE_BOOTING \<or>
          container_get_state env c \<noteq> CONTAINER_STATE_RUNNING \<or>
          container_get_state env c \<noteq> CONTAINER_STATE_STARTING)"

definition uevent_netdev_move :: "env \<Rightarrow> uevent \<Rightarrow> router \<Rightarrow> (int \<times> router) option" where
  "uevent_netdev_move env uevent st =
     (case network_get_mac_by_ifname env (field_str uevent (interface uevent)) of
        None \<Rightarrow> Some (-1, emit Log_error st)
      | Some iface_mac \<Rightarrow>
          (case netdev_target env iface_mac (uevent_container_netdev_mapping_list st) of
             (container, pnet_cfg0) \<Rightarrow>
               if netdev_state_check env container then Some (-1, emit Log_warn st)
               else
                 (case container of
                    None \<Rightarrow> Some (-1, emit Log_warn st)
                  | Some c \<Rightarrow>
                      let pnet_cfg = (case pnet_cfg0 of
                                        Some cfg \<Rightarrow> cfg
                                      | None \<Rightarrow> \<lparr>pnet_name = field_str uevent (interface uevent),
                                                  mac_filter = False\<rparr>)
                      in case uevent_rename_interface env uevent st of
                           None \<Rightarrow> None
                         | Some (newevent, st1) \<Rightarrow>
                             let (ev, st2) = (case newevent of
                                                Some ne \<Rightarrow> (ne, st1)
                                              | None \<Rightarrow> (uevent, emit Log_error st1));
                                 st3 = emit (Add_net_iface c pnet_cfg) st2
                             in if container_add_net_iface env c pnet_cfg \<noteq> 0
                                then Some (-1, emit Log_error st3)
                                else if mac_filter pnet_cfg then Some (0, st3)
                                else
                                  (case uevent_inject_into_netns env (raw ev) (msg_len ev)
                                          (container_get_pid env c) (container_has_userns env c) st3 of
                                     (rc, st4) \<Rightarrow>
                                       Some (0, if rc < 0 then emit Log_warn st4 else st4)))))"

text \<open>The timer callback: it parses its copy of the event from the start of the buffer.\<close>

definition uevent_sysfs_netif_timer_cb :: "env \<Rightarrow> uevent \<Rightarrow> router \<Rightarrow> router option" where
  "uevent_sysfs_netif_timer_cb env data st =
     (case uevent_parse data 0 of
        None \<Rightarrow> None
      | Some uevent_cb \<Rightarrow>
          if field_str uevent_cb (devtype uevent_cb) = ''wlan'' \<and>
             \<not> network_interface_is_wifi env (field_str uevent_cb (interface uevent_cb))
          then Some st
          else
            (case uevent_netdev_move env uevent_cb st of
               None \<Rightarrow> None
             | Some (rc, st1) \<Rightarrow>
                 Some (emit Remove_timer (if rc = -1 then emit Log_warn st1 else st1))))"



subsection \<open>Device nodes\<close>

text \<open>\<^verbatim>\<open>uevent_create_device_node\<close> and \<^verbatim>\<open>uevent_device_node_and_forward\<close>.\<close>

definition uevent_create_device_node ::
  "env \<Rightarrow> uevent \<Rightarrow> string \<Rightarrow> container \<Rightarrow> router \<Rightarrow> int \<times> router" where
  "uevent_create_device_node env uevent path c st =
     (let shift = (\<lambda>s. let s1 = emit (Shift_ids c path) s
                        in if container_shift_ids env c path < 0 then (-1, emit Log_error s1)
                           else (0, s1))
      in if file_exists env path then shift st
         else
           let st1 = emit (Mkdir_p (dirname env path)) st
           in if dir_mkdir_p env (dirname env path) < 0 then (-1, emit Log_error st1)
              else
                let blk = (field_str uevent (devtype uevent) = ''disk'');
                    st2 = emit (Mknod path blk (major uevent) (minor uevent)) st1
                in if mknod env path blk (major uevent) (minor uevent) < 0
                   then (-1, emit Log_error st2)
                   else shift st2)"

definition uevent_device_node_and_forward ::
  "env \<Rightarrow> uevent \<Rightarrow> container \<Rightarrow> router \<Rightarrow> router" where
  "uevent_device_node_and_forward env uevent c st =
     (if \<not> (container_get_state env c = CONTAINER_STATE_BOOTING \<or>
             container_get_state env c = CONTAINER_STATE_RUNNING \<or>
             container_get_state env c = CONTAINER_STATE_SETUP) then st
      else if \<not> container_is_device_allowed env c (major uevent) (minor uevent) then st
      else
        let devname_path =
              container_get_rootdir env c @
              (if \<not> strncmp0 ''/dev/'' (field_str uevent (devname uevent)) 4 then ''/dev/'' else []) @
              field_str uevent (devname uevent);
            forward = (\<lambda>s. case uevent_inject_into_netns env (raw uevent) (msg_len uevent)
                                   (container_get_pid env c) (container_has_userns env c) s of
                              (rc, s1) \<Rightarrow> if rc < 0 then emit Log_warn s1 else s1)
        in if strncmp0 (field_str uevent (action uevent)) ''add'' 3 then
             (case uevent_create_device_node env uevent devname_path c st of
                (rc, st1) \<Rightarrow> if rc < 0 then emit Log_error st1 else forward st1)
           else if strncmp0 (field_str uevent (action uevent)) ''remove'' 6 then
             (let st1 = emit (Unlink devname_path) st
              in forward (if unlink_fails env devname_path then emit Log_warn st1 else st1))
           else forward st)"

subsection \<open>USB devices\<close>

text \<open>\<^verbatim>\<open>uevent_get_usb_vendor\<close> and \<^verbatim>\<open>uevent_get_usb_product\<close>: the id of the event when it is
  not 0, else the first or second number of \<^verbatim>\<open>PRODUCT\<close>, read by
  \<^verbatim>\<open>sscanf("%hx/%hx/%hx")\<close>.\<close>

definition uevent_get_usb_vendor :: "uevent \<Rightarrow> 16 word" where
  "uevent_get_usb_vendor uevent =
     (if id_vendor_id uevent \<noteq> 0 then id_vendor_id uevent
      else case scan_hx (field_str uevent (product uevent)) of
             None \<Rightarrow> 0
           | Some (vendor, _) \<Rightarrow> vendor)"

definition uevent_get_usb_product :: "uevent \<Rightarrow> 16 word" where
  "uevent_get_usb_product uevent =
     (if id_model_id uevent \<noteq> 0 then id_model_id uevent
      else case scan_hx (field_str uevent (product uevent)) of
             None \<Rightarrow> 0
           | Some (_, rest) \<Rightarrow>
               (case rest of
                  [] \<Rightarrow> 0
                | c # rest' \<Rightarrow>
                    if c \<noteq> CHR ''/'' then 0
                    else (case scan_hx rest' of None \<Rightarrow> 0 | Some (pid, _) \<Rightarrow> pid)))"

text \<open>The two loops of \<^verbatim>\<open>uevent_handle_usb_device\<close> over the USB mappings: the calls of
  \<^verbatim>\<open>container_device_deny\<close> on a remove, and on an add the mappings with their major and
  minor filled in together with the calls of \<^verbatim>\<open>container_device_allow\<close>. The flag handed
  to \<^verbatim>\<open>container_device_allow\<close> is the \<^verbatim>\<open>assign\<close> field of the mapping itself.\<close>

fun usb_deny_loop ::
  "uevent \<Rightarrow> uevent_container_dev_mapping list \<Rightarrow> effect list" where
  "usb_deny_loop uevent [] = []"
| "usb_deny_loop uevent (mapping # l) =
     (if major uevent = usb_major (map_usbdev mapping) \<and>
         minor uevent = usb_minor (map_usbdev mapping)
      then [Device_deny (map_container mapping) (usb_major (map_usbdev mapping))
              (usb_minor (map_usbdev mapping))]
      else []) @ usb_deny_loop uevent l"

fun usb_allow_loop ::
  "uevent \<Rightarrow> string \<Rightarrow> uevent_container_dev_mapping list \<Rightarrow>
   uevent_container_dev_mapping list \<times> effect list" where
  "usb_allow_loop uevent serial [] = ([], [])"
| "usb_allow_loop uevent serial (mapping # l) =
     (let vendor_id = uevent_get_usb_vendor uevent;
          product_id = uevent_get_usb_product uevent;
          (l', es) = usb_allow_loop uevent serial l
      in if id_vendor (map_usbdev mapping) = vendor_id \<and>
            id_product (map_usbdev mapping) = product_id \<and>
            i_serial (map_usbdev mapping) = serial
         then (mapping\<lparr>map_usbdev := (map_usbdev mapping)\<lparr>usb_major := major uevent,
                                                             usb_minor := minor uevent\<rparr>\<rparr> # l',
               Device_allow (map_container mapping) (major uevent) (minor uevent)
                 (map_assign mapping) # es)
         else (mapping # l', es))"

definition uevent_handle_usb_device :: "env \<Rightarrow> uevent \<Rightarrow> router \<Rightarrow> bool \<times> router" where
  "uevent_handle_usb_device env uevent st =
     (if \<not> strncmp0 (field_str uevent (subsystem uevent)) ''usb'' 3 \<or>
         \<not> strncmp0 (field_str uevent (devtype uevent)) ''usb_device'' 10 then (False, st)
      else if strncmp0 (field_str uevent (action uevent)) ''remove'' 6 then
        (let st1 = emit (Token_detach (field_str uevent (devpath uevent))) st
         in if cmld_token_detach env (field_str uevent (devpath uevent)) = 0 then (True, st1)
            else (False,
                  st1\<lparr>effects := effects st1 @
                          usb_deny_loop uevent (uevent_container_dev_mapping_list st1)\<rparr>))
      else if strncmp0 (field_str uevent (action uevent)) ''add'' 3 then
        (let serial_path = ''/sys/'' @ field_str uevent (devpath uevent) @ ''/serial'';
             serial0 = (if file_exists env serial_path then file_read_new env serial_path 255
                        else None)
         in case serial0 of
              None \<Rightarrow> (False, st)
            | Some s0 \<Rightarrow>
                if length (cstr s0) < 1 then (False, st)
                else
                  let serial = (if last (cstr s0) = CHR 0x0A then butlast (cstr s0) else cstr s0);
                      st1 = emit (Token_attach serial (field_str uevent (devpath uevent))) st
                  in if cmld_token_attach env serial (field_str uevent (devpath uevent)) = 0
                     then (True, st1)
                     else
                       (case usb_allow_loop uevent serial (uevent_container_dev_mapping_list st1) of
                          (l', es) \<Rightarrow>
                            (False, st1\<lparr>uevent_container_dev_mapping_list := l',
                                        effects := effects st1 @ es\<rparr>)))
      else (False, st))"

subsection \<open>The dispatcher\<close>

text \<open>\<^verbatim>\<open>handle_kernel_event\<close>, \<^verbatim>\<open>handle_udev_event\<close> and \<^verbatim>\<open>uevent_handle\<close>. \<open>forward_all\<close> is
  the loop over all containers.\<close>

fun forward_all :: "env \<Rightarrow> uevent \<Rightarrow> container list \<Rightarrow> router \<Rightarrow> router" where
  "forward_all env uevent [] st = st"
| "forward_all env uevent (c # cs) st =
     forward_all env uevent cs (uevent_device_node_and_forward env uevent c st)"

definition handle_kernel_event :: "env \<Rightarrow> uevent \<Rightarrow> nat \<Rightarrow> router \<Rightarrow> router option" where
  "handle_kernel_event env uevent0 raw_p st =
     (case uevent_parse uevent0 raw_p of
        None \<Rightarrow> None
      | Some uevent \<Rightarrow>
          if \<not> strncmp0 (field_str uevent (action uevent)) ''add'' 3 \<and>
             \<not> strncmp0 (field_str uevent (action uevent)) ''remove'' 6 \<and>
             \<not> strncmp0 (field_str uevent (action uevent)) ''change'' 6 then Some st
          else
            (case uevent_handle_usb_device env uevent st of
               (True, st1) \<Rightarrow> Some st1
             | (False, st1) \<Rightarrow>
                 (case (case uuid_new env (field_str uevent (synth_uuid uevent)) of
                          None \<Rightarrow> None
                        | Some uevent_uuid \<Rightarrow> cmld_container_get_by_uuid env uevent_uuid) of
                    Some c \<Rightarrow>
                      (case synth_uuid uevent of
                         In_Raw off \<Rightarrow>
                           (case uevent_replace_member (host_big_endian env) (mem_new_uevent env)
                                   uevent off ''0'' of
                              None \<Rightarrow> None
                            | Some uev_fwd \<Rightarrow> Some (uevent_device_node_and_forward env uev_fwd c st1))
                       | _ \<Rightarrow> None)
                  | None \<Rightarrow>
                      if strncmp0 (field_str uevent (action uevent)) ''add'' 3 \<and>
                         field_str uevent (subsystem uevent) = ''net'' \<and>
                         strstr (field_str uevent (devpath uevent)) ''virtual'' = None \<and>
                         \<not> cmld_is_hostedmode_active env
                      then Some (emit (Add_timer uevent)
                                   (emit (Netif_phys_add (field_str uevent (interface uevent))) st1))
                      else Some (forward_all env uevent (cmld_containers env) st1))))"

definition handle_udev_event :: "uevent \<Rightarrow> nat \<Rightarrow> router \<Rightarrow> router option" where
  "handle_udev_event uevent raw_p st =
     (case uevent_parse uevent raw_p of None \<Rightarrow> None | Some _ \<Rightarrow> Some st)"

text \<open>Modelled from the spec: \<^verbatim>\<open>UEVENT_BUF_LEN\<close> is defined in uevent.h, which is not part of
  the sources at hand; the specification gives a buffer of 8 KiB.\<close>

definition UEVENT_BUF_LEN :: nat where
  "UEVENT_BUF_LEN = 8192"

text \<open>An event fresh from \<^verbatim>\<open>mem_new0\<close> with the given buffer and length.\<close>

definition zeroed :: "string \<Rightarrow> nat \<Rightarrow> uevent" where
  "zeroed buf n = \<lparr>raw = buf, msg_len = n, action = Null, subsystem = Null, devname = Null,
     devpath = Null, devtype = Null, driver = Null, major = 0, minor = 0, utype = Null,
     product = Null, id_vendor_id = 0, id_model_id = 0, id_serial_short = Null,
     interface = Null, synth_uuid = Null\<rparr>"

text \<open>\<^verbatim>\<open>htonl(UDEV_MONITOR_MAGIC)\<close> in memory. \<open>rcv_buf\<close> is the buffer after
  \<^verbatim>\<open>nl_msg_receive_kernel\<close> has written the received bytes, at most \<^verbatim>\<open>UEVENT_BUF_LEN - 1\<close>
  of them, into the zeroed event; \<open>rcv_rc\<close> is its return value, which the handler
  stores in the unsigned \<^verbatim>\<open>msg_len\<close> of 64 bits before it tests it.\<close>

definition UDEV_MONITOR_MAGIC_be :: string where
  "UDEV_MONITOR_MAGIC_be = [CHR 0xFE, CHR 0xED, CHR 0xCA, CHR 0xFE]"

definition rcv_buf :: "string \<Rightarrow> string" where
  "rcv_buf rcv_bytes =
     take (UEVENT_BUF_LEN - 1) rcv_bytes @
     replicate (UEVENT_BUF_LEN - length (take (UEVENT_BUF_LEN - 1) rcv_bytes)) NUL"

definition uevent_handle :: "env \<Rightarrow> int \<Rightarrow> string \<Rightarrow> router \<Rightarrow> router option" where
  "uevent_handle env rcv_rc rcv_bytes st =
     (let uev = zeroed (rcv_buf rcv_bytes) (nat (rcv_rc mod 2 ^ 64))
      in if msg_len uev = 0 then Some (emit Log_warn st)
         else if strncmp0 (nlh_prefix (raw uev)) ''libudev'' (msg_len uev) then
           (if nlh_magic (raw uev) \<noteq> UDEV_MONITOR_MAGIC_be then Some (emit Log_warn st)
            else if int (msg_len uev) <
                      (bytes_word (host_big_endian env) (nlh_properties_off (raw uev)) + 32) mod 2 ^ 32
            then Some (emit Log_warn st)
            else handle_udev_event uev
                   (nat (bytes_word (host_big_endian env) (nlh_properties_off (raw uev)))) st)
         else if CHR ''@'' \<in> set (cstr (raw uev)) then
           handle_kernel_event env uev (length (cstr (raw uev)) + 1) st
         else Some st)"

subsection \<open>The recognized properties, named\<close>

text \<open>The statements about \<^verbatim>\<open>uevent_parse\<close> speak of the properties one at a time. \<open>key\<close>
  names the fourteen prefixes of its \<^verbatim>\<open>if\<close> chain, in the order of the chain; \<open>key_str\<close> and
  \<open>key_len\<close> are the prefix and the length the chain compares; \<open>key_ptr\<close> is the pointer the
  event keeps for a string property, \<open>key_val\<close> the value of the property as a reader of the
  event sees it: the string behind the pointer, or the integer.\<close>

datatype key =
    K_action | K_devpath | K_subsystem | K_major | K_minor | K_devname | K_devtype
  | K_driver | K_product | K_vendor | K_model | K_serial | K_interface | K_synth

fun key_str :: "key \<Rightarrow> string" where
  "key_str K_action = ''ACTION=''"
| "key_str K_devpath = ''DEVPATH=''"
| "key_str K_subsystem = ''SUBSYSTEM=''"
| "key_str K_major = ''MAJOR=''"
| "key_str K_minor = ''MINOR=''"
| "key_str K_devname = ''DEVNAME=''"
| "key_str K_devtype = ''DEVTYPE=''"
| "key_str K_driver = ''DRIVER=''"
| "key_str K_product = ''PRODUCT=''"
| "key_str K_vendor = ''ID_VENDOR_ID=''"
| "key_str K_model = ''ID_MODEL_ID=''"
| "key_str K_serial = ''ID_SERIAL_SHORT=''"
| "key_str K_interface = ''INTERFACE=''"
| "key_str K_synth = ''SYNTH_UUID=''"

fun key_len :: "key \<Rightarrow> nat" where
  "key_len K_action = 7"
| "key_len K_devpath = 8"
| "key_len K_subsystem = 10"
| "key_len K_major = 6"
| "key_len K_minor = 6"
| "key_len K_devname = 8"
| "key_len K_devtype = 8"
| "key_len K_driver = 7"
| "key_len K_product = 8"
| "key_len K_vendor = 13"
| "key_len K_model = 12"
| "key_len K_serial = 16"
| "key_len K_interface = 10"
| "key_len K_synth = 11"

fun key_ptr :: "key \<Rightarrow> uevent \<Rightarrow> strptr option" where
  "key_ptr K_action ev = Some (action ev)"
| "key_ptr K_devpath ev = Some (devpath ev)"
| "key_ptr K_subsystem ev = Some (subsystem ev)"
| "key_ptr K_major ev = None"
| "key_ptr K_minor ev = None"
| "key_ptr K_devname ev = Some (devname ev)"
| "key_ptr K_devtype ev = Some (devtype ev)"
| "key_ptr K_driver ev = Some (driver ev)"
| "key_ptr K_product ev = Some (product ev)"
| "key_ptr K_vendor ev = None"
| "key_ptr K_model ev = None"
| "key_ptr K_serial ev = Some (id_serial_short ev)"
| "key_ptr K_interface ev = Some (interface ev)"
| "key_ptr K_synth ev = Some (synth_uuid ev)"

datatype pval = Str_val string | Int_val int | Hex_val "16 word"

fun key_val :: "key \<Rightarrow> uevent \<Rightarrow> pval" where
  "key_val K_action ev = Str_val (field_str ev (action ev))"
| "key_val K_devpath ev = Str_val (field_str ev (devpath ev))"
| "key_val K_subsystem ev = Str_val (field_str ev (subsystem ev))"
| "key_val K_major ev = Int_val (major ev)"
| "key_val K_minor ev = Int_val (minor ev)"
| "key_val K_devname ev = Str_val (field_str ev (devname ev))"
| "key_val K_devtype ev = Str_val (field_str ev (devtype ev))"
| "key_val K_driver ev = Str_val (field_str ev (driver ev))"
| "key_val K_product ev = Str_val (field_str ev (product ev))"
| "key_val K_vendor ev = Hex_val (id_vendor_id ev)"
| "key_val K_model ev = Hex_val (id_model_id ev)"
| "key_val K_serial ev = Str_val (field_str ev (id_serial_short ev))"
| "key_val K_interface ev = Str_val (field_str ev (interface ev))"
| "key_val K_synth ev = Str_val (field_str ev (synth_uuid ev))"

text \<open>\<open>classify\<close> is the \<^verbatim>\<open>if\<close> chain of \<^verbatim>\<open>uevent_parse\<close> alone, \<open>apply_key\<close> the assignment of
  each branch; \<open>parse_entry_classify\<close> below shows that \<open>parse_entry\<close> is the two
  together.\<close>

definition classify :: "string \<Rightarrow> key option" where
  "classify m =
     (if strncmp0 m ''ACTION='' 7 then Some K_action
      else if strncmp0 m ''DEVPATH='' 8 then Some K_devpath
      else if strncmp0 m ''SUBSYSTEM='' 10 then Some K_subsystem
      else if strncmp0 m ''MAJOR='' 6 then Some K_major
      else if strncmp0 m ''MINOR='' 6 then Some K_minor
      else if strncmp0 m ''DEVNAME='' 8 then Some K_devname
      else if strncmp0 m ''DEVTYPE='' 8 then Some K_devtype
      else if strncmp0 m ''DRIVER='' 7 then Some K_driver
      else if strncmp0 m ''PRODUCT='' 8 then Some K_product
      else if strncmp0 m ''ID_VENDOR_ID='' 13 then Some K_vendor
      else if strncmp0 m ''ID_MODEL_ID='' 12 then Some K_model
      else if strncmp0 m ''ID_SERIAL_SHORT='' 16 then Some K_serial
      else if strncmp0 m ''INTERFACE='' 10 then Some K_interface
      else if strncmp0 m ''SYNTH_UUID='' 11 then Some K_synth
      else None)"

fun apply_key :: "key \<Rightarrow> nat \<Rightarrow> uevent \<Rightarrow> uevent" where
  "apply_key K_action q ev = ev\<lparr>action := In_Raw q\<rparr>"
| "apply_key K_devpath q ev = ev\<lparr>devpath := In_Raw q\<rparr>"
| "apply_key K_subsystem q ev = ev\<lparr>subsystem := In_Raw q\<rparr>"
| "apply_key K_major q ev = ev\<lparr>major := atoi (drop q (raw ev))\<rparr>"
| "apply_key K_minor q ev = ev\<lparr>minor := atoi (drop q (raw ev))\<rparr>"
| "apply_key K_devname q ev = ev\<lparr>devname := In_Raw q\<rparr>"
| "apply_key K_devtype q ev = ev\<lparr>devtype := In_Raw q\<rparr>"
| "apply_key K_driver q ev = ev\<lparr>driver := In_Raw q\<rparr>"
| "apply_key K_product q ev = ev\<lparr>product := In_Raw q\<rparr>"
| "apply_key K_vendor q ev = ev\<lparr>id_vendor_id := sscanf_hx (drop q (raw ev)) (id_vendor_id ev)\<rparr>"
| "apply_key K_model q ev = ev\<lparr>id_model_id := sscanf_hx (drop q (raw ev)) (id_model_id ev)\<rparr>"
| "apply_key K_serial q ev = ev\<lparr>id_serial_short := In_Raw q\<rparr>"
| "apply_key K_interface q ev = ev\<lparr>interface := In_Raw q\<rparr>"
| "apply_key K_synth q ev = ev\<lparr>synth_uuid := In_Raw q\<rparr>"

text \<open>What an entry stores for a key, from the text behind the key and the old value.\<close>

fun entry_val :: "key \<Rightarrow> string \<Rightarrow> pval \<Rightarrow> pval" where
  "entry_val K_major s old = Int_val (atoi s)"
| "entry_val K_minor s old = Int_val (atoi s)"
| "entry_val K_vendor s old = Hex_val (sscanf_hx s (case old of Hex_val w \<Rightarrow> w | _ \<Rightarrow> 0))"
| "entry_val K_model s old = Hex_val (sscanf_hx s (case old of Hex_val w \<Rightarrow> w | _ \<Rightarrow> 0))"
| "entry_val K s old = Str_val (cstr s)"

text \<open>The string behind a pointer, as a function of the buffer.\<close>

definition pstr :: "string \<Rightarrow> strptr \<Rightarrow> string" where
  "pstr buf p = (case p of In_Raw off \<Rightarrow> cstr (drop off buf) | _ \<Rightarrow> [])"

text \<open>The part of the message from \<open>p\<close> to its end.\<close>

definition chunk :: "uevent \<Rightarrow> nat \<Rightarrow> string" where
  "chunk ev p = take (msg_len ev - p) (drop p (raw ev))"

text \<open>One turn of the loop, read off the part of the message that is still ahead.\<close>

definition entry :: "nat \<Rightarrow> string \<Rightarrow> uevent \<Rightarrow> uevent" where
  "entry p tok ev = (case classify tok of None \<Rightarrow> ev | Some K \<Rightarrow> apply_key K (p + key_len K) ev)"

text \<open>The assignments \<^verbatim>\<open>uevent_parse\<close> makes before its loop.\<close>

definition defaults :: "uevent \<Rightarrow> uevent" where
  "defaults uevent =
     uevent\<lparr>action := Empty_Lit, devpath := Empty_Lit, devname := Empty_Lit,
            devtype := Empty_Lit, major := -1, minor := -1, subsystem := Empty_Lit,
            product := Empty_Lit, id_model_id := 0, id_vendor_id := 0,
            id_serial_short := Empty_Lit, interface := Empty_Lit, synth_uuid := Empty_Lit\<rparr>"

subsection \<open>Example inputs\<close>

text \<open>A MAC address and a stand-in for \<^verbatim>\<open>network_str_to_mac_addr\<close> that knows its text
  form only; they serve as concrete inputs.\<close>

definition example_mac :: mac_addr where
  "example_mac = [0x52, 0x54, 0x00, 0x12, 0x34, 0x56]"

definition example_str_to_mac :: "string \<Rightarrow> mac_addr option" where
  "example_str_to_mac s = (if s = ''52:54:00:12:34:56'' then Some example_mac else None)"

definition example_usbdev :: "int \<Rightarrow> uevent_usbdev" where
  "example_usbdev mj = (uevent_usbdev_new 1 0x1d6b 2 ''0000:00:14.0'' False)\<lparr>usb_major := mj\<rparr>"

text \<open>A kernel frame for the root hub of USB bus 1, and the view \<^verbatim>\<open>uevent_parse\<close> derives
  from it when it starts behind the header line, in a zeroed event.\<close>

definition usb_frame :: string where
  "usb_frame = ''add@/devices/pci0000:00/0000:00:14.0/usb1'' @ [NUL] @ ''ACTION=add'' @ [NUL] @
     ''DEVPATH=/devices/pci0000:00/0000:00:14.0/usb1'' @ [NUL] @ ''SUBSYSTEM=usb'' @ [NUL] @
     ''MAJOR=189'' @ [NUL] @ ''MINOR=3'' @ [NUL] @ ''DEVNAME=bus/usb/001/001'' @ [NUL] @
     ''DEVTYPE=usb_device'' @ [NUL] @ ''PRODUCT=1d6b/2/410'' @ [NUL] @ ''SEQNUM=1234'' @ [NUL]"

definition usb_event :: uevent where
  "usb_event = (zeroed usb_frame 205)\<lparr>action := In_Raw 49, subsystem := In_Raw 109,
     devname := In_Raw 139, devpath := In_Raw 61, devtype := In_Raw 163, major := 189, minor := 3,
     product := In_Raw 182, id_vendor_id := 0, id_model_id := 0, id_serial_short := Empty_Lit,
     interface := Empty_Lit, synth_uuid := Empty_Lit\<rparr>"

text \<open>A kernel frame for a new network interface \<^verbatim>\<open>eth5\<close>, and its view when parsed
  from the start of the buffer.\<close>

definition net_frame :: string where
  "net_frame = ''add@/devices/pci0/net/eth5'' @ [NUL] @ ''ACTION=add'' @ [NUL] @
     ''DEVPATH=/devices/pci0/net/eth5'' @ [NUL] @ ''SUBSYSTEM=net'' @ [NUL] @
     ''INTERFACE=eth5'' @ [NUL] @ ''SEQNUM=4711'' @ [NUL]"

definition net_event :: uevent where
  "net_event = (zeroed (net_frame @ replicate 18 NUL) 110)\<lparr>action := In_Raw 34,
     subsystem := In_Raw 79, devname := Empty_Lit, devpath := In_Raw 46, devtype := Empty_Lit,
     major := -1, minor := -1, product := Empty_Lit, id_vendor_id := 0, id_model_id := 0,
     id_serial_short := Empty_Lit, interface := In_Raw 93, synth_uuid := Empty_Lit\<rparr>"

text \<open>A udev frame whose properties start behind the 40 bytes of the header and are 26
  bytes long, and its view when parsed from \<^verbatim>\<open>properties_off\<close>.\<close>

definition udev_frame :: string where
  "udev_frame = ''libudev'' @ [NUL] @ [CHR 0xFE, CHR 0xED, CHR 0xCA, CHR 0xFE] @
     [CHR 0x28, NUL, NUL, NUL] @ [CHR 0x28, NUL, NUL, NUL] @ [CHR 0x1A, NUL, NUL, NUL] @
     [CHR 0x11, CHR 0x22, CHR 0x33, CHR 0x44] @ replicate 12 NUL @
     ''ACTION=add'' @ [NUL] @ ''INTERFACE=eth5'' @ [NUL]"

definition udev_event :: uevent where
  "udev_event = (zeroed (udev_frame @ replicate 14 NUL) 66)\<lparr>action := In_Raw 47,
     subsystem := Empty_Lit, devname := Empty_Lit, devpath := Empty_Lit, devtype := Empty_Lit,
     major := -1, minor := -1, product := Empty_Lit, id_vendor_id := 0, id_model_id := 0,
     id_serial_short := Empty_Lit, interface := In_Raw 61, synth_uuid := Empty_Lit\<rparr>"

text \<open>A frame whose first line holds an \<^verbatim>\<open>@\<close> and is itself a recognized entry, with a
  \<^verbatim>\<open>SYNTH_UUID\<close>; its view when parsed from behind the first line, at offset 14.\<close>

definition header_entry_frame :: string where
  "header_entry_frame = ''DEVNAME=sda@x'' @ [NUL] @ ''ACTION=add'' @ [NUL] @
     ''SYNTH_UUID=6f5a1c1e-0000-4000-8000-000000000001'' @ [NUL]"

definition header_entry_event :: uevent where
  "header_entry_event = (zeroed (header_entry_frame @ replicate 27 NUL) 73)\<lparr>action := In_Raw 21,
     subsystem := Empty_Lit, devname := Empty_Lit, devpath := Empty_Lit, devtype := Empty_Lit,
     major := -1, minor := -1, product := Empty_Lit, id_vendor_id := 0, id_model_id := 0,
     id_serial_short := Empty_Lit, interface := Empty_Lit, synth_uuid := In_Raw 36\<rparr>"

text \<open>A udev frame with the magic \<^verbatim>\<open>0xDEADBEEF\<close>.\<close>

definition bad_udev_msg :: string where
  "bad_udev_msg = ''libudev'' @ [NUL] @ [CHR 0xDE, CHR 0xAD, CHR 0xBE, CHR 0xEF] @
     [CHR 0x28, NUL, NUL, NUL] @ [CHR 0x28, NUL, NUL, NUL] @ [CHR 0x0B, NUL, NUL, NUL] @
     replicate 16 NUL @ ''ACTION=add'' @ [NUL]"

text \<open>A world with one container, 0, which is c0 and is running; every call into it
  succeeds, no token is attached, and the serial file of every USB device reads
  \<^verbatim>\<open>0000:00:14.0\<close> and a newline.\<close>

definition example_env :: env where
  "example_env =
     \<lparr>host_big_endian = False,
      mem_new_uevent = zeroed (replicate 128 (CHR ''#'')) 0,
      network_get_mac_by_ifname = (\<lambda>_. Some example_mac),
      network_rename_ifi = (\<lambda>_ _. 0),
      network_interface_is_wifi = (\<lambda>_. False),
      cmld_containers_get_c0 = Some 0,
      cmld_containers = [0],
      cmld_container_get_by_uuid = (\<lambda>_. None),
      cmld_is_hostedmode_active = False,
      cmld_netif_phys_remove_by_name = (\<lambda>_. True),
      cmld_token_attach = (\<lambda>_ _. -1),
      cmld_token_detach = (\<lambda>_. -1),
      uuid_new = (\<lambda>_. None),
      container_get_state = (\<lambda>_. CONTAINER_STATE_RUNNING),
      container_get_pid = (\<lambda>_. 4242),
      container_has_userns = (\<lambda>_. True),
      container_get_rootdir = (\<lambda>_. ''/tmp/c0''),
      container_is_device_allowed = (\<lambda>_ _ _. True),
      container_add_net_iface = (\<lambda>_ _. 0),
      container_shift_ids = (\<lambda>_ _. 0),
      inject_child_result = (\<lambda>_ _ _. 0),
      file_exists = (\<lambda>_. True),
      file_read_new = (\<lambda>_ _. Some (''0000:00:14.0'' @ [CHR 0x0A])),
      dirname = (\<lambda>p. p),
      dir_mkdir_p = (\<lambda>_. 0),
      mknod = (\<lambda>_ _ _ _. 0),
      unlink_fails = (\<lambda>_. False)\<rparr>"

definition example_router :: router where
  "example_router =
     \<lparr>uevent_container_dev_mapping_list =
        snd (uevent_register_usbdevice 1 (uevent_usbdev_new 1 0x1d6b 2 ''0000:00:14.0'' False) []),
      uevent_container_netdev_mapping_list = [],
      cmld_wlan_idx = 0, cmld_eth_idx = 0, effects = []\<rparr>"

section \<open>Properties of the routing tables\<close>

lemma mapping_to_remove_none:
  "\<forall>x \<in> set l. \<not> P x \<Longrightarrow> mapping_to_remove P l i found = found"
  by (induction l arbitrary: i found) auto

lemma mapping_to_remove_last:
  "P m \<Longrightarrow> \<forall>x \<in> set post. \<not> P x \<Longrightarrow>
   mapping_to_remove P (pre @ m # post) i found = Some (i + length pre)"
  by (induction pre arbitrary: i found) (auto simp: mapping_to_remove_none)

lemma list_remove_middle: "list_remove (pre @ m # post) (length pre) = pre @ post"
  by (simp add: list_remove_def)

lemma usb_new_matches:
  "usb_mapping_matches c d (uevent_container_dev_mapping_new c d)"
  by (simp add: usb_mapping_matches_def uevent_container_dev_mapping_new_def)

lemma unregister_usb_last:
  "usb_mapping_matches c d m \<Longrightarrow> \<forall>x \<in> set post. \<not> usb_mapping_matches c d x \<Longrightarrow>
   uevent_unregister_usbdevice c d (pre @ m # post) = (0, pre @ post)"
  using mapping_to_remove_last [of "usb_mapping_matches c d" m post pre 0 None]
  by (simp add: uevent_unregister_usbdevice_def list_remove_middle)

lemma unregister_net_last:
  "net_mapping_matches c mac m \<Longrightarrow> \<forall>x \<in> set post. \<not> net_mapping_matches c mac x \<Longrightarrow>
   uevent_unregister_netdev c mac (pre @ m # post) = (0, pre @ post)"
  using mapping_to_remove_last [of "net_mapping_matches c mac" m post pre 0 None]
  by (simp add: uevent_unregister_netdev_def list_remove_middle)

text \<open>
  C6 (as the code has it). \<^verbatim>\<open>uevent_register_usbdevice\<close> never looks at the entries
  already stored: every call returns 0 and appends one mapping, a copy of the device
  with the major and minor it carries, behind the existing entries, which stay as they
  are. The table keeps the at-most-one-entry-per-identity invariant when the identity
  registered is not in the table yet.
\<close>

theorem register_usbdevice_appends:
  "uevent_register_usbdevice c d tbl = (0, tbl @ [uevent_container_dev_mapping_new c d]) \<and>
   (usb_table_unique tbl \<and> (\<forall>m \<in> set tbl. \<not> usb_mapping_matches c d m) \<longrightarrow>
      usb_table_unique (snd (uevent_register_usbdevice c d tbl)))"
  by (auto simp: uevent_register_usbdevice_def list_append_def usb_table_unique_def
      usb_identity_def usb_mapping_matches_def uevent_container_dev_mapping_new_def)

theorem register_usbdevice_appends_witness:
  "usb_table_unique [uevent_container_dev_mapping_new 1 (uevent_usbdev_new 1 0x1d6b 2 ''A'' False)] \<and>
   list_all (\<lambda>m. \<not> usb_mapping_matches 1 (uevent_usbdev_new 1 0x1d6b 2 ''B'' False) m)
     [uevent_container_dev_mapping_new 1 (uevent_usbdev_new 1 0x1d6b 2 ''A'' False)] \<and>
   usb_table_unique (snd (uevent_register_usbdevice 1 (uevent_usbdev_new 1 0x1d6b 2 ''B'' False)
      [uevent_container_dev_mapping_new 1 (uevent_usbdev_new 1 0x1d6b 2 ''A'' False)]))"
  using register_usbdevice_appends [of 1 "uevent_usbdev_new 1 0x1d6b 2 ''B'' False"
      "[uevent_container_dev_mapping_new 1 (uevent_usbdev_new 1 0x1d6b 2 ''A'' False)]"]
  by (simp add: usb_table_unique_def usb_identity_def usb_mapping_matches_def
      uevent_container_dev_mapping_new_def uevent_usbdev_new_def)

text \<open>
  C6 (as the specification states it) fails: registering the same identity twice leaves
  two entries with that identity in the table.
\<close>

theorem register_usbdevice_duplicates:
  "\<not> usb_table_unique
       (snd (uevent_register_usbdevice 1 (uevent_usbdev_new 1 0x1d6b 2 ''0000:00:14.0'' False)
         (snd (uevent_register_usbdevice 1 (uevent_usbdev_new 1 0x1d6b 2 ''0000:00:14.0'' False) []))))
   \<and> length
       (snd (uevent_register_usbdevice 1 (uevent_usbdev_new 1 0x1d6b 2 ''0000:00:14.0'' False)
         (snd (uevent_register_usbdevice 1 (uevent_usbdev_new 1 0x1d6b 2 ''0000:00:14.0'' False) []))))
     = 2"
  by (simp add: uevent_register_usbdevice_def list_append_def usb_table_unique_def
      usb_identity_def uevent_container_dev_mapping_new_def uevent_usbdev_new_def)

text \<open>
  C9. Registering a USB mapping and unregistering it with the same container and
  device gives back the table as it was, and both calls return 0. The same holds for a
  NET mapping whose registration succeeds, that is, whose \<^verbatim>\<open>pnet_name\<close> is a MAC string;
  the MAC handed to unregister is the one the name stands for.
\<close>

theorem register_unregister_roundtrip:
  "uevent_register_usbdevice c d utbl = (0, snd (uevent_register_usbdevice c d utbl)) \<and>
   uevent_unregister_usbdevice c d (snd (uevent_register_usbdevice c d utbl)) = (0, utbl) \<and>
   (str_to_mac (pnet_name cfg) = Some mac \<longrightarrow>
      fst (uevent_register_netdev str_to_mac c cfg ntbl) = 0 \<and>
      uevent_unregister_netdev c mac (snd (uevent_register_netdev str_to_mac c cfg ntbl))
        = (0, ntbl))"
proof -
  have usb: "uevent_unregister_usbdevice c d (utbl @ [uevent_container_dev_mapping_new c d])
               = (0, utbl)"
    using unregister_usb_last [of c d "uevent_container_dev_mapping_new c d" "[]" utbl]
    by (simp add: usb_new_matches)
  have net: "uevent_unregister_netdev c mac
               (ntbl @ [\<lparr>net_container = c, net_pnet_cfg = cfg, net_mac = mac\<rparr>]) = (0, ntbl)"
    using unregister_net_last
      [of c mac "\<lparr>net_container = c, net_pnet_cfg = cfg, net_mac = mac\<rparr>" "[]" ntbl]
    by (simp add: net_mapping_matches_def memcmp6_eq_def)
  show ?thesis
    using usb net
    by (simp add: uevent_register_usbdevice_def uevent_register_netdev_def list_append_def
        uevent_container_netdev_mapping_new_def)
qed

theorem register_unregister_roundtrip_witness:
  "example_str_to_mac (pnet_name \<lparr>pnet_name = ''52:54:00:12:34:56'', mac_filter = False\<rparr>)
     = Some example_mac \<and>
   fst (uevent_register_netdev example_str_to_mac 2
          \<lparr>pnet_name = ''52:54:00:12:34:56'', mac_filter = False\<rparr>
          [\<lparr>net_container = 1, net_pnet_cfg = \<lparr>pnet_name = ''52:54:00:12:34:56'', mac_filter = True\<rparr>,
            net_mac = example_mac\<rparr>]) = 0 \<and>
   uevent_unregister_netdev 2 example_mac
     (snd (uevent_register_netdev example_str_to_mac 2
        \<lparr>pnet_name = ''52:54:00:12:34:56'', mac_filter = False\<rparr>
        [\<lparr>net_container = 1, net_pnet_cfg = \<lparr>pnet_name = ''52:54:00:12:34:56'', mac_filter = True\<rparr>,
          net_mac = example_mac\<rparr>]))
     = (0, [\<lparr>net_container = 1, net_pnet_cfg = \<lparr>pnet_name = ''52:54:00:12:34:56'', mac_filter = True\<rparr>,
          net_mac = example_mac\<rparr>])"
proof -
  have h: "example_str_to_mac (pnet_name \<lparr>pnet_name = ''52:54:00:12:34:56'', mac_filter = False\<rparr>)
             = Some example_mac"
    by (simp add: example_str_to_mac_def)
  show ?thesis
    using h register_unregister_roundtrip
      [of 2 "uevent_usbdev_new 1 0x1d6b 2 ''A'' False" "[]" example_str_to_mac
        "\<lparr>pnet_name = ''52:54:00:12:34:56'', mac_filter = False\<rparr>" example_mac
        "[\<lparr>net_container = 1, net_pnet_cfg = \<lparr>pnet_name = ''52:54:00:12:34:56'', mac_filter = True\<rparr>,
          net_mac = example_mac\<rparr>]"]
    by blast
qed

text \<open>
  C10. When the table holds one or more mappings that match the container and identity
  given to unregister, the call returns 0 and removes exactly the last of them in list
  order (the one registered most recently): the entries before it, matching or not, and
  the entries behind it stay in place. This holds for the USB table and for the NET
  table.
\<close>

theorem unregister_removes_last_match:
  "(usb_mapping_matches c d um \<and> (\<forall>x \<in> set upost. \<not> usb_mapping_matches c d x) \<longrightarrow>
      uevent_unregister_usbdevice c d (upre @ um # upost) = (0, upre @ upost)) \<and>
   (net_mapping_matches c mac nm \<and> (\<forall>x \<in> set npost. \<not> net_mapping_matches c mac x) \<longrightarrow>
      uevent_unregister_netdev c mac (npre @ nm # npost) = (0, npre @ npost))"
  using unregister_usb_last [of c d um upost upre] unregister_net_last [of c mac nm npost npre]
  by blast

theorem unregister_removes_last_match_witness:
  "usb_mapping_matches 1 (example_usbdev 0) (uevent_container_dev_mapping_new 1 (example_usbdev 7)) \<and>
   list_all (\<lambda>x. \<not> usb_mapping_matches 1 (example_usbdev 0) x)
     [uevent_container_dev_mapping_new 2 (example_usbdev 9)] \<and>
   uevent_unregister_usbdevice 1 (example_usbdev 0)
     ([uevent_container_dev_mapping_new 1 (example_usbdev 5)] @
      uevent_container_dev_mapping_new 1 (example_usbdev 7) #
      [uevent_container_dev_mapping_new 2 (example_usbdev 9)])
     = (0, [uevent_container_dev_mapping_new 1 (example_usbdev 5)] @
           [uevent_container_dev_mapping_new 2 (example_usbdev 9)]) \<and>
   net_mapping_matches 1 example_mac
     \<lparr>net_container = 1, net_pnet_cfg = \<lparr>pnet_name = ''b'', mac_filter = True\<rparr>,
      net_mac = example_mac\<rparr> \<and>
   uevent_unregister_netdev 1 example_mac
     ([\<lparr>net_container = 1, net_pnet_cfg = \<lparr>pnet_name = ''a'', mac_filter = False\<rparr>,
        net_mac = example_mac\<rparr>] @
      \<lparr>net_container = 1, net_pnet_cfg = \<lparr>pnet_name = ''b'', mac_filter = True\<rparr>,
        net_mac = example_mac\<rparr> # [])
     = (0, [\<lparr>net_container = 1, net_pnet_cfg = \<lparr>pnet_name = ''a'', mac_filter = False\<rparr>,
        net_mac = example_mac\<rparr>] @ [])"
proof -
  have u1: "usb_mapping_matches 1 (example_usbdev 0)
              (uevent_container_dev_mapping_new 1 (example_usbdev 7))"
    by (simp add: usb_mapping_matches_def uevent_container_dev_mapping_new_def
        example_usbdev_def uevent_usbdev_new_def)
  have u2: "\<forall>x \<in> set [uevent_container_dev_mapping_new 2 (example_usbdev 9)].
              \<not> usb_mapping_matches 1 (example_usbdev 0) x"
    by (simp add: usb_mapping_matches_def uevent_container_dev_mapping_new_def)
  have n1: "net_mapping_matches 1 example_mac
     \<lparr>net_container = 1, net_pnet_cfg = \<lparr>pnet_name = ''b'', mac_filter = True\<rparr>,
      net_mac = example_mac\<rparr>"
    by (simp add: net_mapping_matches_def memcmp6_eq_def)
  have n2: "\<forall>x \<in> set []. \<not> net_mapping_matches 1 example_mac x"
    by simp
  show ?thesis
    using u1 u2 n1 n2
      unregister_removes_last_match
        [of 1 "example_usbdev 0" "uevent_container_dev_mapping_new 1 (example_usbdev 7)"
            "[uevent_container_dev_mapping_new 2 (example_usbdev 9)]"
            "[uevent_container_dev_mapping_new 1 (example_usbdev 5)]"
            example_mac
            "\<lparr>net_container = 1, net_pnet_cfg = \<lparr>pnet_name = ''b'', mac_filter = True\<rparr>,
              net_mac = example_mac\<rparr>"
            "[]"
            "[\<lparr>net_container = 1, net_pnet_cfg = \<lparr>pnet_name = ''a'', mac_filter = False\<rparr>,
              net_mac = example_mac\<rparr>]"]
    by (simp add: list_all_iff)
qed

section \<open>Properties of the event codec\<close>

lemma parse_entry_classify:
  "parse_entry p ev =
     (case classify (drop p (raw ev)) of
        None \<Rightarrow> (p, ev)
      | Some K \<Rightarrow> (p + key_len K, apply_key K (p + key_len K) ev))"
  by (simp add: parse_entry_def classify_def Let_def)

lemma key_len: "length (key_str K) = key_len K"
  by (cases K) simp_all

lemma cstr_idem [simp]: "cstr (cstr m) = cstr m"
  by (simp add: cstr_def takeWhile_idem)

lemma cstr_nul_free: "NUL \<notin> set s \<Longrightarrow> cstr (s @ t) = s @ cstr t"
  by (induction s) (auto simp: cstr_def)

lemma classify_cong: "cstr m = cstr m' \<Longrightarrow> classify m = classify m'"
  by (simp add: classify_def strncmp0_def)

lemma classify_key: "classify (key_str K @ s) = Some K"
  by (cases K) (simp_all add: classify_def strncmp0_def cstr_def)

lemma classify_prefix:
  "classify m = Some K \<Longrightarrow> take (key_len K) (cstr m) = key_str K"
  by (cases K) (auto simp: classify_def strncmp0_def cstr_def split: if_splits)

lemma key_str_nul_free: "NUL \<notin> set (key_str K)"
  by (cases K) simp_all

lemma apply_key_raw [simp]: "raw (apply_key K q ev) = raw ev"
  by (cases K) simp_all

lemma apply_key_msg_len [simp]: "msg_len (apply_key K q ev) = msg_len ev"
  by (cases K) simp_all

lemma apply_key_ptr:
  "key_ptr g (apply_key K q ev) =
     (if g = K \<and> key_ptr K ev \<noteq> None then Some (In_Raw q) else key_ptr g ev)"
  by (cases K; cases g) simp_all

lemma atoi_cstr: "atoi (cstr s) = atoi s"
  by (simp add: atoi_def)

lemma sscanf_hx_cstr: "sscanf_hx (cstr s) old = sscanf_hx s old"
  by (simp add: sscanf_hx_def)

lemma field_str_pstr: "field_str ev p = pstr (raw ev) p"
  by (simp add: field_str_def pstr_def)

lemma pstr_In_Raw [simp]: "pstr buf (In_Raw q) = cstr (drop q buf)"
  by (simp add: pstr_def)

lemma apply_key_val:
  "key_val g (apply_key K q ev) =
     (if g = K then entry_val K (cstr (drop q (raw ev))) (key_val K ev) else key_val g ev)"
  by (cases K; cases g) (simp_all add: field_str_pstr atoi_cstr sscanf_hx_cstr)

lemma nul_in_last: "C \<noteq> [] \<Longrightarrow> last C = NUL \<Longrightarrow> NUL \<in> set C"
  by (metis last_in_set)

lemma cstr_append_nul: "NUL \<in> set a \<Longrightarrow> cstr (a @ b) = cstr a"
  by (induction a) (auto simp: cstr_def)

lemma cstr_take: "NUL \<in> set (take m xs) \<Longrightarrow> cstr (take m xs) = cstr xs"
  using cstr_append_nul [of "take m xs" "drop m xs"] by simp

lemma cstr_len: "NUL \<in> set xs \<Longrightarrow> length (cstr xs) < length xs"
  by (induction xs) (auto simp: cstr_def)

lemma cstr_split: "NUL \<in> set xs \<Longrightarrow> xs = cstr xs @ NUL # drop (length (cstr xs) + 1) xs"
  by (induction xs) (auto simp: cstr_def)

lemma cstr_nul_free_set: "NUL \<notin> set (cstr xs)"
  by (induction xs) (auto simp: cstr_def)

lemma cstr_drop: "n \<le> length (cstr xs) \<Longrightarrow> cstr (drop n xs) = drop n (cstr xs)"
proof (induction xs arbitrary: n)
  case Nil
  then show ?case by (simp add: cstr_def)
next
  case (Cons x xs)
  then show ?case by (cases n) (auto simp: cstr_def split: if_splits)
qed

lemma nul_in_drop: "n \<le> length (cstr xs) \<Longrightarrow> NUL \<in> set xs \<Longrightarrow> NUL \<in> set (drop n xs)"
proof (induction xs arbitrary: n)
  case Nil
  then show ?case by simp
next
  case (Cons x xs)
  then show ?case by (cases n) (auto simp: cstr_def split: if_splits)
qed

lemma cstr_eq_self: "NUL \<notin> set s \<Longrightarrow> cstr s = s"
  by (induction s) (auto simp: cstr_def)

lemma cstr_tok: "NUL \<notin> set s \<Longrightarrow> cstr (s @ NUL # t) = s"
  by (induction s) (auto simp: cstr_def)

lemma entry_raw [simp]: "raw (entry p tok ev) = raw ev"
  by (simp add: entry_def split: option.splits)

lemma entry_msg_len [simp]: "msg_len (entry p tok ev) = msg_len ev"
  by (simp add: entry_def split: option.splits)

lemma chunk_nonempty: "p < msg_len ev \<Longrightarrow> msg_len ev \<le> length (raw ev) \<Longrightarrow> chunk ev p \<noteq> []"
  by (simp add: chunk_def)

lemma chunk_length: "msg_len ev \<le> length (raw ev) \<Longrightarrow> length (chunk ev p) = msg_len ev - p"
  by (simp add: chunk_def)

lemma chunk_hd: "p < msg_len ev \<Longrightarrow> msg_len ev \<le> length (raw ev) \<Longrightarrow> hd (chunk ev p) = raw ev ! p"
  by (simp add: chunk_def hd_drop_conv_nth)

lemma chunk_cstr:
  "NUL \<in> set (chunk ev p) \<Longrightarrow> cstr (drop p (raw ev)) = cstr (chunk ev p)"
  by (simp add: chunk_def cstr_take)

lemma chunk_drop: "chunk ev (p + n) = drop n (chunk ev p)"
  by (simp add: chunk_def drop_take add.commute)

lemma parse_loop_step:
  assumes p: "p < msg_len ev" and len: "msg_len ev \<le> length (raw ev)"
    and last: "last (chunk ev p) = NUL"
  shows "parse_loop p ev =
     (if hd (chunk ev p) = NUL then Some ev
      else if length (chunk ev p) \<le> length (cstr (chunk ev p)) + 1
           then Some (entry p (cstr (chunk ev p)) ev)
           else parse_loop (p + length (cstr (chunk ev p)) + 1) (entry p (cstr (chunk ev p)) ev))"
proof -
  let ?C = "chunk ev p" and ?tok = "cstr (chunk ev p)"
  have ne: "?C \<noteq> []" using p len by (rule chunk_nonempty)
  have nul: "NUL \<in> set ?C" using ne last by (rule nul_in_last)
  have tok: "cstr (drop p (raw ev)) = ?tok" using nul by (rule chunk_cstr)
  have nulr: "NUL \<in> set (drop p (raw ev))"
    using nul by (auto simp: chunk_def dest: in_set_takeD)
  have cl: "classify (drop p (raw ev)) = classify ?tok"
    by (rule classify_cong) (simp add: tok)
  have lc: "length ?C = msg_len ev - p" using len by (rule chunk_length)
  have hd: "hd ?C = raw ev ! p" using p len by (rule chunk_hd)
  have pl: "\<not> length (raw ev) \<le> p" using p len by simp
  have ar: "(msg_len ev \<le> Suc (p + length ?tok)) = (length ?C \<le> length ?tok + 1)"
    using lc p by auto
  show ?thesis
  proof (cases "classify ?tok")
    case None
    have sl: "strlen (drop p (raw ev)) = Some (length ?tok)"
      using nulr tok by (simp add: strlen_def)
    show ?thesis
      using None pl hd sl ar
      by (subst parse_loop.simps) (simp add: parse_entry_classify cl entry_def)
  next
    case (Some K)
    have kl: "key_len K \<le> length ?tok"
    proof -
      have "take (key_len K) (cstr ?tok) = key_str K" using Some by (rule classify_prefix)
      then have "length (take (key_len K) ?tok) = key_len K" by (simp add: key_len)
      then show ?thesis by simp
    qed
    have kl': "key_len K \<le> length (cstr (drop p (raw ev)))" using kl tok by simp
    have d: "drop (p + key_len K) (raw ev) = drop (key_len K) (drop p (raw ev))"
      by (simp add: add.commute)
    have c2: "cstr (drop (p + key_len K) (raw ev)) = drop (key_len K) ?tok"
      using cstr_drop [OF kl'] tok d by simp
    have n2: "NUL \<in> set (drop (p + key_len K) (raw ev))"
      using nul_in_drop [OF kl' nulr] d by simp
    have sl: "strlen (drop (p + key_len K) (raw ev)) = Some (length ?tok - key_len K)"
      using n2 c2 by (simp add: strlen_def)
    have ar2: "p + key_len K + (length ?tok - key_len K) = p + length ?tok"
      using kl by simp
    show ?thesis
      using Some pl hd sl ar ar2
      by (subst parse_loop.simps) (simp add: parse_entry_classify cl entry_def)
  qed
qed

lemma entry_val_cstr: "entry_val g (cstr x) old = entry_val g x old"
  by (cases g) (simp_all add: atoi_cstr sscanf_hx_cstr)

lemma classify_len: "classify tok = Some K \<Longrightarrow> key_len K \<le> length (cstr tok)"
proof -
  assume "classify tok = Some K"
  then have "take (key_len K) (cstr tok) = key_str K" by (rule classify_prefix)
  then have "length (take (key_len K) (cstr tok)) = key_len K" by (simp add: key_len)
  then show ?thesis by simp
qed

lemma entry_key_val:
  assumes "cstr (drop p (raw ev)) = tok"
  shows "key_val g (entry p tok ev) =
           (if classify tok = Some g then entry_val g (drop (key_len g) tok) (key_val g ev)
            else key_val g ev)"
proof (cases "classify tok")
  case None
  then show ?thesis by (simp add: entry_def)
next
  case (Some K)
  have tt: "cstr tok = tok" using assms cstr_idem by metis
  have kl: "key_len K \<le> length (cstr (drop p (raw ev)))"
    using classify_len [OF Some] tt assms by simp
  have "cstr (drop (p + key_len K) (raw ev)) = drop (key_len K) tok"
    using cstr_drop [OF kl] assms by (simp add: add.commute)
  then show ?thesis
    using Some by (auto simp: entry_def apply_key_val)
qed

lemma entry_key_ptr:
  "key_ptr g (entry p tok ev) =
     (if classify tok = Some g \<and> key_ptr g ev \<noteq> None then Some (In_Raw (p + key_len g))
      else key_ptr g ev)"
  by (auto simp: entry_def apply_key_ptr split: option.splits)

lemma key_len_pos: "0 < key_len K"
  by (cases K) simp_all

lemma last_chunk_next:
  assumes "last (chunk ev p) = NUL" "n < length (chunk ev p)"
  shows "last (chunk (entry p tok ev) (p + n)) = NUL"
proof -
  have "chunk (entry p tok ev) (p + n) = drop n (chunk ev p)"
    by (simp add: chunk_def drop_take add.commute)
  then show ?thesis using assms by simp
qed

lemma parse_loop_ptr:
  assumes "p < msg_len ev" "msg_len ev \<le> length (raw ev)" "last (chunk ev p) = NUL"
  shows "\<exists>w. parse_loop p ev = Some w \<and> raw w = raw ev \<and> msg_len w = msg_len ev \<and>
              (\<forall>g. key_ptr g w = key_ptr g ev \<or>
                   (\<exists>q. key_ptr g w = Some (In_Raw q) \<and> p < q \<and> q < msg_len ev))"
  using assms
proof (induction "msg_len ev - p" arbitrary: p ev rule: less_induct)
  case less
  let ?C = "chunk ev p"
  let ?tok = "cstr ?C"
  let ?e = "entry p ?tok ev"
  note step = parse_loop_step [OF less.prems]
  have lc: "length ?C = msg_len ev - p" using less.prems(2) by (rule chunk_length)
  have ne: "?C \<noteq> []" using less.prems(1,2) by (rule chunk_nonempty)
  have nul: "NUL \<in> set ?C" using ne less.prems(3) by (rule nul_in_last)
  have tl: "length ?tok < length ?C" using nul by (rule cstr_len)
  have e_ptr: "\<forall>g. key_ptr g ?e = key_ptr g ev \<or>
                    (\<exists>q. key_ptr g ?e = Some (In_Raw q) \<and> p < q \<and> q < msg_len ev)"
  proof
    fix g
    show "key_ptr g ?e = key_ptr g ev \<or>
            (\<exists>q. key_ptr g ?e = Some (In_Raw q) \<and> p < q \<and> q < msg_len ev)"
    proof (cases "classify ?tok = Some g \<and> key_ptr g ev \<noteq> None")
      case True
      then have 1: "key_ptr g ?e = Some (In_Raw (p + key_len g))" by (simp add: entry_key_ptr)
      have "key_len g \<le> length ?tok" using classify_len [of ?tok g] True by simp
      then have "p + key_len g < msg_len ev" using tl lc by simp
      then show ?thesis using 1 key_len_pos [of g] by simp
    next
      case False
      then show ?thesis by (auto simp: entry_key_ptr)
    qed
  qed
  show ?case
  proof (cases "hd ?C = NUL")
    case True
    then show ?thesis using step by simp
  next
    case False
    show ?thesis
    proof (cases "length ?C \<le> length ?tok + 1")
      case True
      then have "parse_loop p ev = Some ?e" using step False by simp
      then show ?thesis using e_ptr by simp
    next
      case stop: False
      let ?p1 = "p + length ?tok + 1"
      have pl: "parse_loop p ev = parse_loop ?p1 ?e" using step False stop by simp
      have lt: "msg_len ?e - ?p1 < msg_len ev - p" using stop lc by simp
      have p1: "?p1 < msg_len ?e" using stop lc by simp
      have len1: "msg_len ?e \<le> length (raw ?e)" using less.prems(2) by simp
      have la: "last (chunk ?e ?p1) = NUL"
        using last_chunk_next [OF less.prems(3), of "length ?tok + 1" ?tok] stop
        by (simp add: add.assoc)
      obtain w where w: "parse_loop ?p1 ?e = Some w" "raw w = raw ?e" "msg_len w = msg_len ?e"
        "\<forall>g. key_ptr g w = key_ptr g ?e \<or>
             (\<exists>q. key_ptr g w = Some (In_Raw q) \<and> ?p1 < q \<and> q < msg_len ?e)"
        using less.hyps [OF lt p1 len1 la] by blast
      have "\<forall>g. key_ptr g w = key_ptr g ev \<or>
                 (\<exists>q. key_ptr g w = Some (In_Raw q) \<and> p < q \<and> q < msg_len ev)"
      proof
        fix g
        from w(4) have "key_ptr g w = key_ptr g ?e \<or>
             (\<exists>q. key_ptr g w = Some (In_Raw q) \<and> ?p1 < q \<and> q < msg_len ?e)"
          by blast
        moreover from e_ptr have "key_ptr g ?e = key_ptr g ev \<or>
             (\<exists>q. key_ptr g ?e = Some (In_Raw q) \<and> p < q \<and> q < msg_len ev)"
          by blast
        ultimately show "key_ptr g w = key_ptr g ev \<or>
             (\<exists>q. key_ptr g w = Some (In_Raw q) \<and> p < q \<and> q < msg_len ev)"
          by (elim disjE exE conjE) auto
      qed
      then show ?thesis using pl w by simp
    qed
  qed
qed

lemma chunk_entry: "chunk (entry p tok ev) q = chunk ev q"
  by (simp add: chunk_def)

lemma parse_loop_sim:
  assumes "p < msg_len ev" "msg_len ev \<le> length (raw ev)" "last (chunk ev p) = NUL"
    and "msg_len ev' \<le> length (raw ev')" "chunk ev' p' = chunk ev p"
  shows "\<exists>w w'. parse_loop p ev = Some w \<and> parse_loop p' ev' = Some w' \<and>
           (\<forall>g. key_val g ev' = key_val g ev \<longrightarrow> key_val g w' = key_val g w) \<and>
           (\<forall>g. key_ptr g w = key_ptr g ev \<and> key_ptr g ev \<noteq> None \<and>
                (\<forall>q. key_ptr g ev = Some (In_Raw q) \<longrightarrow> q \<le> p) \<longrightarrow>
                key_val g w' = key_val g ev')"
  using assms
proof (induction "msg_len ev - p" arbitrary: p p' ev ev' rule: less_induct)
  case less
  let ?C = "chunk ev p"
  let ?tok = "cstr ?C"
  let ?e = "entry p ?tok ev"
  let ?e' = "entry p' ?tok ev'"
  have lc: "length ?C = msg_len ev - p" using less.prems(2) by (rule chunk_length)
  have lc': "length ?C = msg_len ev' - p'"
    using chunk_length [OF less.prems(4), of p'] less.prems(5) by simp
  have p': "p' < msg_len ev'" using lc lc' less.prems(1) by simp
  have last': "last (chunk ev' p') = NUL" using less.prems(3,5) by simp
  note step = parse_loop_step [OF less.prems(1,2,3)]
  note step' = parse_loop_step [OF p' less.prems(4) last', unfolded less.prems(5)]
  have ne: "?C \<noteq> []" using less.prems(1,2) by (rule chunk_nonempty)
  have nul: "NUL \<in> set ?C" using ne less.prems(3) by (rule nul_in_last)
  have tok: "cstr (drop p (raw ev)) = ?tok" using nul by (rule chunk_cstr)
  have tok': "cstr (drop p' (raw ev')) = ?tok"
    using chunk_cstr [of ev' p'] nul less.prems(5) by simp
  have vals: "\<forall>g. key_val g ev' = key_val g ev \<longrightarrow> key_val g ?e' = key_val g ?e"
    by (simp add: entry_key_val [OF tok] entry_key_val [OF tok'])
  have untouched: "\<forall>g. key_ptr g ?e = key_ptr g ev \<and> key_ptr g ev \<noteq> None \<and>
                (\<forall>q. key_ptr g ev = Some (In_Raw q) \<longrightarrow> q \<le> p) \<longrightarrow>
                key_val g ?e' = key_val g ev'"
  proof (intro allI impI)
    fix g
    assume a: "key_ptr g ?e = key_ptr g ev \<and> key_ptr g ev \<noteq> None \<and>
                (\<forall>q. key_ptr g ev = Some (In_Raw q) \<longrightarrow> q \<le> p)"
    have "classify ?tok \<noteq> Some g"
    proof
      assume c: "classify ?tok = Some g"
      then have "key_ptr g ?e = Some (In_Raw (p + key_len g))"
        using a by (simp add: entry_key_ptr)
      then have "p + key_len g \<le> p" using a by simp
      then show False using key_len_pos [of g] by simp
    qed
    then show "key_val g ?e' = key_val g ev'"
      by (simp add: entry_key_val [OF tok'])
  qed
  show ?case
  proof (cases "hd ?C = NUL")
    case True
    then show ?thesis using step step' by simp
  next
    case False
    show ?thesis
    proof (cases "length ?C \<le> length ?tok + 1")
      case True
      then have "parse_loop p ev = Some ?e" "parse_loop p' ev' = Some ?e'"
        using step step' False by simp_all
      then show ?thesis using vals untouched by simp
    next
      case stop: False
      let ?p1 = "p + length ?tok + 1"
      let ?p1' = "p' + length ?tok + 1"
      have pl: "parse_loop p ev = parse_loop ?p1 ?e" using step False stop by simp
      have pl': "parse_loop p' ev' = parse_loop ?p1' ?e'" using step' False stop by simp
      have lt: "msg_len ?e - ?p1 < msg_len ev - p" using stop lc by simp
      have p1: "?p1 < msg_len ?e" using stop lc by simp
      have len1: "msg_len ?e \<le> length (raw ?e)" using less.prems(2) by simp
      have len1': "msg_len ?e' \<le> length (raw ?e')" using less.prems(4) by simp
      have la: "last (chunk ?e ?p1) = NUL"
        using last_chunk_next [OF less.prems(3), of "length ?tok + 1" ?tok] stop
        by (simp add: add.assoc)
      have ch: "chunk ?e' ?p1' = chunk ?e ?p1"
        using less.prems(5) chunk_drop [of ev' p' "length ?tok + 1"]
          chunk_drop [of ev p "length ?tok + 1"]
        by (simp add: chunk_entry add.assoc)
      obtain w w' where w: "parse_loop ?p1 ?e = Some w" "parse_loop ?p1' ?e' = Some w'"
        "\<forall>g. key_val g ?e' = key_val g ?e \<longrightarrow> key_val g w' = key_val g w"
        "\<forall>g. key_ptr g w = key_ptr g ?e \<and> key_ptr g ?e \<noteq> None \<and>
                (\<forall>q. key_ptr g ?e = Some (In_Raw q) \<longrightarrow> q \<le> ?p1) \<longrightarrow>
                key_val g w' = key_val g ?e'"
        using less.hyps [OF lt p1 len1 la len1' ch] by blast
      obtain w0 where w0: "parse_loop ?p1 ?e = Some w0"
        "\<forall>g. key_ptr g w0 = key_ptr g ?e \<or> (\<exists>q. key_ptr g w0 = Some (In_Raw q) \<and> ?p1 < q)"
      proof -
        obtain w1 where "parse_loop ?p1 ?e = Some w1"
          "\<forall>g. key_ptr g w1 = key_ptr g ?e \<or>
               (\<exists>q. key_ptr g w1 = Some (In_Raw q) \<and> ?p1 < q \<and> q < msg_len ?e)"
          using parse_loop_ptr [OF p1 len1 la] by blast
        then show ?thesis using that [of w1] by blast
      qed
      have rng: "\<forall>g. key_ptr g w = key_ptr g ?e \<or> (\<exists>q. key_ptr g w = Some (In_Raw q) \<and> ?p1 < q)"
        using w0 w(1) by simp
      have v: "\<forall>g. key_val g ev' = key_val g ev \<longrightarrow> key_val g w' = key_val g w"
        using vals w(3) by blast
      have u: "\<forall>g. key_ptr g w = key_ptr g ev \<and> key_ptr g ev \<noteq> None \<and>
                (\<forall>q. key_ptr g ev = Some (In_Raw q) \<longrightarrow> q \<le> p) \<longrightarrow>
                key_val g w' = key_val g ev'"
      proof (intro allI impI)
        fix g
        assume a: "key_ptr g w = key_ptr g ev \<and> key_ptr g ev \<noteq> None \<and>
                (\<forall>q. key_ptr g ev = Some (In_Raw q) \<longrightarrow> q \<le> p)"
        show "key_val g w' = key_val g ev'"
        proof (cases "classify ?tok = Some g")
          case True
          then have e: "key_ptr g ?e = Some (In_Raw (p + key_len g))"
            using a by (simp add: entry_key_ptr)
          have "p < p + key_len g" using key_len_pos by simp
          then have "\<exists>q. key_ptr g w = Some (In_Raw q) \<and> p < q"
            using rng e by (metis add_lessD1 less_add_one)
          then show ?thesis using a by force
        next
          case False
          then have e: "key_ptr g ?e = key_ptr g ev" by (simp add: entry_key_ptr)
          have e': "key_val g ?e' = key_val g ev'"
            using False by (simp add: entry_key_val [OF tok'])
          have "key_val g w' = key_val g ?e'"
            using w(4) e a by force
          then show ?thesis using e' by simp
        qed
      qed
      show ?thesis using pl pl' w(1,2) v u by simp
    qed
  qed
qed

lemma entry_val_str: "key_ptr f ev \<noteq> None \<Longrightarrow> entry_val f s old = Str_val (cstr s)"
  by (cases f) simp_all

lemma parse_loop_rewrite:
  assumes "chunk ev p = A @ old @ NUL # C2" and "chunk ev' p = A @ new @ NUL # C2"
    and "NUL \<notin> set old" and "NUL \<notin> set new"
    and "last (chunk ev p) = NUL"
    and "msg_len ev \<le> length (raw ev)" and "msg_len ev' \<le> length (raw ev')"
    and "\<forall>g. g \<noteq> K_driver \<longrightarrow> key_ptr g ev' = key_ptr g ev \<and> key_val g ev' = key_val g ev \<and>
              (\<forall>q. key_ptr g ev = Some (In_Raw q) \<longrightarrow> q < p)"
    and "parse_loop p ev = Some w" and "key_ptr f w = Some (In_Raw (p + length A))"
    and "f \<noteq> K_driver"
  shows "\<exists>w'. parse_loop p ev' = Some w' \<and> key_val f w' = Str_val new \<and>
              (\<forall>g. g \<noteq> f \<and> g \<noteq> K_driver \<longrightarrow> key_val g w' = key_val g w)"
  using assms
proof (induction "length A" arbitrary: p ev ev' A rule: less_induct)
  case less
  note ch = less.prems(1) and ch' = less.prems(2) and old = less.prems(3) and new = less.prems(4)
    and last = less.prems(5) and len = less.prems(6) and len' = less.prems(7)
    and inv = less.prems(8) and res = less.prems(9) and ptr = less.prems(10) and f = less.prems(11)
  let ?C = "chunk ev p" and ?C' = "chunk ev' p"
  let ?tok = "cstr ?C" and ?tok' = "cstr ?C'"
  let ?e = "entry p ?tok ev" and ?e' = "entry p ?tok' ev'"
  have lc: "length ?C = msg_len ev - p" using len by (rule chunk_length)
  have lc': "length ?C' = msg_len ev' - p" using len' by (rule chunk_length)
  have p: "p < msg_len ev" using lc ch by (cases "p < msg_len ev") auto
  have p': "p < msg_len ev'" using lc' ch' by (cases "p < msg_len ev'") auto
  have last': "last ?C' = NUL" using last ch ch' by (simp split: if_splits)
  note step = parse_loop_step [OF p len last]
  note step' = parse_loop_step [OF p' len' last']
  have nul: "NUL \<in> set ?C" using ch by simp
  have nul': "NUL \<in> set ?C'" using ch' by simp
  have tok: "cstr (drop p (raw ev)) = ?tok" using nul by (rule chunk_cstr)
  have tok': "cstr (drop p (raw ev')) = ?tok'" using nul' by (rule chunk_cstr)
  have hd: "hd ?C \<noteq> NUL"
  proof
    assume "hd ?C = NUL"
    then have "w = ev" using step res by simp
    then have "p + length A < p" using inv ptr f by blast
    then show False by simp
  qed
  show ?case
  proof (cases "NUL \<in> set A")
    case True
    have t: "?tok = cstr A" using True ch by (simp add: cstr_append_nul)
    have t': "?tok' = cstr A" using True ch' by (simp add: cstr_append_nul)
    have tl: "length (cstr A) < length A" using True by (rule cstr_len)
    obtain A1 where A1: "A = cstr A @ NUL # A1" "A1 = drop (length (cstr A) + 1) A"
      using cstr_split [OF True] by blast
    have A1l: "length A1 < length A" using A1(2) tl by simp
    have hd': "hd ?C' \<noteq> NUL" using hd ch ch' True by (cases A) auto
    have ns: "\<not> length ?C \<le> length ?tok + 1" using ch t tl by simp
    have ns': "\<not> length ?C' \<le> length ?tok' + 1" using ch' t' tl by simp
    let ?p1 = "p + length (cstr A) + 1"
    have pl: "parse_loop ?p1 ?e = Some w" using step hd ns res t by simp
    have pl': "parse_loop p ev' = parse_loop ?p1 ?e'" using step' hd' ns' t' by simp
    have c1: "chunk ?e ?p1 = A1 @ old @ NUL # C2"
    proof -
      have "chunk ?e ?p1 = drop (length (cstr A) + 1) ?C"
        using chunk_drop [of ev p "length (cstr A) + 1"] by (simp add: chunk_entry add.assoc)
      also have "\<dots> = drop (length (cstr A) + 1) A @ old @ NUL # C2"
        using ch tl by simp
      finally show ?thesis using A1(2) by simp
    qed
    have c1': "chunk ?e' ?p1 = A1 @ new @ NUL # C2"
    proof -
      have "chunk ?e' ?p1 = drop (length (cstr A) + 1) ?C'"
        using chunk_drop [of ev' p "length (cstr A) + 1"] by (simp add: chunk_entry add.assoc)
      also have "\<dots> = drop (length (cstr A) + 1) A @ new @ NUL # C2"
        using ch' tl by simp
      finally show ?thesis using A1(2) by simp
    qed
    have la: "last (chunk ?e ?p1) = NUL"
      using last_chunk_next [OF last, of "length (cstr A) + 1" ?tok] ns t
      by (simp add: add.assoc)
    have inv1: "\<forall>g. g \<noteq> K_driver \<longrightarrow> key_ptr g ?e' = key_ptr g ?e \<and> key_val g ?e' = key_val g ?e \<and>
              (\<forall>q. key_ptr g ?e = Some (In_Raw q) \<longrightarrow> q < ?p1)"
    proof (intro allI impI)
      fix g
      assume g: "g \<noteq> K_driver"
      have i: "key_ptr g ev' = key_ptr g ev" "key_val g ev' = key_val g ev"
        "\<forall>q. key_ptr g ev = Some (In_Raw q) \<longrightarrow> q < p"
        using inv g by blast+
      have 1: "key_ptr g ?e' = key_ptr g ?e" using i(1) t t' by (simp add: entry_key_ptr)
      have tokA: "cstr (drop p (raw ev)) = cstr A" using tok t by simp
      have tokA': "cstr (drop p (raw ev')) = cstr A" using tok' t' by simp
      have "key_val g (entry p (cstr A) ev') = key_val g (entry p (cstr A) ev)"
        using i(2) by (simp add: entry_key_val [OF tokA] entry_key_val [OF tokA'])
      then have 2: "key_val g ?e' = key_val g ?e"
        using t t' by simp
      have 3: "\<forall>q. key_ptr g ?e = Some (In_Raw q) \<longrightarrow> q < ?p1"
      proof (intro allI impI)
        fix q
        assume q: "key_ptr g ?e = Some (In_Raw q)"
        show "q < ?p1"
        proof (cases "classify ?tok = Some g \<and> key_ptr g ev \<noteq> None")
          case True
          then have "q = p + key_len g" using q by (simp add: entry_key_ptr)
          moreover have "key_len g \<le> length (cstr A)"
            using classify_len [of ?tok g] True t by simp
          ultimately show ?thesis by simp
        next
          case False
          then have "key_ptr g ev = Some (In_Raw q)" using q by (auto simp: entry_key_ptr)
          then have "q < p" using i(3) by blast
          then show ?thesis by simp
        qed
      qed
      show "key_ptr g ?e' = key_ptr g ?e \<and> key_val g ?e' = key_val g ?e \<and>
              (\<forall>q. key_ptr g ?e = Some (In_Raw q) \<longrightarrow> q < ?p1)"
        using 1 2 3 by blast
    qed
    have ptr1: "key_ptr f w = Some (In_Raw (?p1 + length A1))"
      using ptr A1(2) tl by simp
    have "\<exists>w'. parse_loop ?p1 ?e' = Some w' \<and> key_val f w' = Str_val new \<and>
              (\<forall>g. g \<noteq> f \<and> g \<noteq> K_driver \<longrightarrow> key_val g w' = key_val g w)"
      using less.hyps [OF A1l c1 c1' old new la _ _ inv1 pl ptr1 f] len len' by simp
    then show ?thesis using pl' by simp
  next
    case False
    have nf: "NUL \<notin> set (A @ old)" using False old by simp
    have nf': "NUL \<notin> set (A @ new)" using False new by simp
    have t: "?tok = A @ old" using cstr_tok [OF nf, of C2] ch by simp
    have t': "?tok' = A @ new" using cstr_tok [OF nf', of C2] ch' by simp
    let ?p1 = "p + length ?tok + 1" and ?p1' = "p + length ?tok' + 1"
    have len1: "msg_len ?e \<le> length (raw ?e)" using len by simp
    have len1': "msg_len ?e' \<le> length (raw ?e')" using len' by simp
    have rng: "key_ptr f w = key_ptr f ?e \<or> (\<exists>q. key_ptr f w = Some (In_Raw q) \<and> ?p1 < q)"
    proof (cases "length ?C \<le> length ?tok + 1")
      case True
      then show ?thesis using step hd res by simp
    next
      case ns: False
      have pl: "parse_loop ?p1 ?e = Some w" using step hd ns res by simp
      have p1: "?p1 < msg_len ?e" using ns lc by simp
      have la: "last (chunk ?e ?p1) = NUL"
        using last_chunk_next [OF last, of "length ?tok + 1" ?tok] ns by (simp add: add.assoc)
      show ?thesis using parse_loop_ptr [OF p1 len1 la] pl by auto
    qed
    have e: "key_ptr f ?e = Some (In_Raw (p + length A))"
      using rng ptr t by auto
    have cl: "classify ?tok = Some f \<and> key_ptr f ev \<noteq> None"
    proof (rule ccontr)
      assume "\<not> (classify ?tok = Some f \<and> key_ptr f ev \<noteq> None)"
      then have "key_ptr f ev = Some (In_Raw (p + length A))"
        using e by (auto simp: entry_key_ptr)
      then have "p + length A < p" using inv f by blast
      then show False by simp
    qed
    have kl: "key_len f = length A" using e cl by (simp add: entry_key_ptr)
    have A: "A = key_str f"
    proof -
      have "take (key_len f) (cstr ?tok) = key_str f" using cl classify_prefix by blast
      then show ?thesis using kl t nf by (simp add: cstr_eq_self)
    qed
    have hd': "hd ?C' \<noteq> NUL"
    proof -
      have "A \<noteq> []" using kl key_len_pos [of f] by auto
      then have "hd ?C' = hd A" "hd A \<in> set A" using ch' by simp_all
      then show ?thesis using False by metis
    qed
    have cl': "classify ?tok' = Some f" using t' A by (simp add: classify_key)
    have str': "key_ptr f ev' \<noteq> None" using cl inv f by simp
    have vf: "key_val f ?e' = Str_val new"
    proof -
      have "key_val f ?e' = entry_val f (drop (key_len f) ?tok') (key_val f ev')"
        using cl' by (simp add: entry_key_val [OF tok'])
      also have "\<dots> = Str_val (cstr (drop (key_len f) ?tok'))" by (rule entry_val_str [OF str'])
      also have "drop (key_len f) ?tok' = new" using t' kl by simp
      finally show ?thesis using new by (simp add: cstr_eq_self)
    qed
    have vg: "\<forall>g. g \<noteq> f \<and> g \<noteq> K_driver \<longrightarrow> key_val g ?e' = key_val g ?e"
    proof (intro allI impI)
      fix g
      assume g: "g \<noteq> f \<and> g \<noteq> K_driver"
      have "key_val g ?e' = key_val g ev'" using cl' g by (auto simp: entry_key_val [OF tok'])
      moreover have "key_val g ?e = key_val g ev" using cl g by (auto simp: entry_key_val [OF tok])
      ultimately show "key_val g ?e' = key_val g ?e" using inv g by simp
    qed
    show ?thesis
    proof (cases "length ?C \<le> length ?tok + 1")
      case True
      then have c2: "C2 = []" using ch t by simp
      then have st': "length ?C' \<le> length ?tok' + 1" using ch' t' by simp
      have "w = ?e" using step hd True res by simp
      moreover have "parse_loop p ev' = Some ?e'" using step' hd' st' by simp
      ultimately show ?thesis using vf vg by simp
    next
      case ns: False
      then have ns': "\<not> length ?C' \<le> length ?tok' + 1" using ch ch' t t' by simp
      have pl: "parse_loop ?p1 ?e = Some w" using step hd ns res by simp
      have pl': "parse_loop p ev' = parse_loop ?p1' ?e'" using step' hd' ns' by simp
      have p1: "?p1 < msg_len ?e" using ns lc by simp
      have la: "last (chunk ?e ?p1) = NUL"
        using last_chunk_next [OF last, of "length ?tok + 1" ?tok] ns by (simp add: add.assoc)
      have c: "chunk ?e ?p1 = C2"
        using chunk_drop [of ev p "length ?tok + 1"] ch t by (simp add: chunk_entry add.assoc)
      have c': "chunk ?e' ?p1' = C2"
        using chunk_drop [of ev' p "length ?tok' + 1"] ch' t' by (simp add: chunk_entry add.assoc)
      have cc: "chunk ?e' ?p1' = chunk ?e ?p1" using c c' by simp
      obtain w0 w' where sim: "parse_loop ?p1 ?e = Some w0" "parse_loop ?p1' ?e' = Some w'"
        "\<forall>g. key_val g ?e' = key_val g ?e \<longrightarrow> key_val g w' = key_val g w0"
        "\<forall>g. key_ptr g w0 = key_ptr g ?e \<and> key_ptr g ?e \<noteq> None \<and>
                (\<forall>q. key_ptr g ?e = Some (In_Raw q) \<longrightarrow> q \<le> ?p1) \<longrightarrow>
                key_val g w' = key_val g ?e'"
        using parse_loop_sim [OF p1 len1 la len1' cc] by blast
      have w0: "w0 = w" using sim(1) pl by simp
      have "key_ptr f w = key_ptr f ?e \<and> key_ptr f ?e \<noteq> None \<and>
                (\<forall>q. key_ptr f ?e = Some (In_Raw q) \<longrightarrow> q \<le> ?p1)"
        using e ptr t by simp
      then have "key_val f w' = key_val f ?e'" using sim(4) w0 by blast
      then have 1: "key_val f w' = Str_val new" using vf by simp
      have 2: "\<forall>g. g \<noteq> f \<and> g \<noteq> K_driver \<longrightarrow> key_val g w' = key_val g w"
        using vg sim(3) w0 by blast
      show ?thesis using pl' sim(2) 1 2 by simp
    qed
  qed
qed

lemma memcpy_props:
  assumes "memcpy dst d src s n = Some r"
  shows "length r = length dst" "take d r = take d dst"
    "take n (drop d r) = take n (drop s src)" "drop (d + n) r = drop (d + n) dst"
  using assms by (auto simp: memcpy_def split: if_splits)

lemma memcpy_ok:
  "d + n \<le> length dst \<Longrightarrow> s + n \<le> length src \<Longrightarrow> \<exists>r. memcpy dst d src s n = Some r"
  by (simp add: memcpy_def)

lemma word_bytes_length: "length (word_bytes be w) = 4"
  by (simp add: word_bytes_def Let_def)

lemma take_cstr_nul:
  "NUL \<in> set xs \<Longrightarrow> take (length (cstr xs) + 1) xs = cstr xs @ [NUL]"
  using cstr_split [of xs] by (metis append.assoc append_Cons append_Nil append_eq_conv_conj length_append_singleton Suc_eq_plus1)

text \<open>What \<^verbatim>\<open>uevent_replace_member\<close> leaves in the new buffer.\<close>

lemma replace_member_raw:
  assumes o: "0 < oldmember" "oldmember < msg_len uevent"
    and nul: "NUL \<in> set (drop oldmember (raw uevent))"
    and k: "k = length (cstr (drop oldmember (raw uevent)))" and n: "n = length (cstr newmember)"
    and aft: "oldmember + k + 1 \<le> msg_len uevent"
    and len: "msg_len uevent \<le> length (raw uevent)"
    and hdr: "nlh_size \<le> length (raw uevent)" "nlh_size \<le> length (raw newevent)"
    and cap: "msg_len uevent + n \<le> length (raw newevent) + k"
  shows "\<exists>r. uevent_replace_member be newevent uevent oldmember newmember
               = uevent_parse (newevent\<lparr>raw := r, msg_len := msg_len uevent + n - k\<rparr>) 0 \<and>
             length r = length (raw newevent) \<and>
             take oldmember r = take oldmember (raw uevent) \<and>
             take (n + 1) (drop oldmember r) = cstr newmember @ [NUL] \<and>
             take (msg_len uevent - (oldmember + k + 1)) (drop (oldmember + n + 1) r)
               = take (msg_len uevent - (oldmember + k + 1)) (drop (oldmember + k + 1) (raw uevent))"
proof -
  let ?R = "raw uevent" and ?J = "raw newevent" and ?L = "msg_len uevent"
  let ?W = "word_bytes be ((bytes_word be (nlh_properties_len ?R) + (int n - int k)) mod 2 ^ 32)"
  have sl: "strlen (drop oldmember ?R) = Some k" using nul k by (simp add: strlen_def)
  obtain r1 where r1: "memcpy ?J 0 ?R 0 nlh_size = Some r1"
    using memcpy_ok [of 0 nlh_size ?J 0 ?R] hdr by auto
  have l1: "length r1 = length ?J" using memcpy_props(1) [OF r1] .
  obtain r2 where r2: "memcpy r1 20 ?W 0 4 = Some r2"
    using memcpy_ok [of 20 4 r1 0 ?W] l1 hdr by (auto simp: word_bytes_length nlh_size_def)
  have l2: "length r2 = length ?J" using memcpy_props(1) [OF r2] l1 by simp
  have oj: "oldmember + n + 1 \<le> length ?J" using cap aft by simp
  obtain r3 where r3: "memcpy r2 0 ?R 0 oldmember = Some r3"
    using memcpy_ok [of 0 oldmember r2 0 ?R] l2 oj o len by auto
  have l3: "length r3 = length ?J" using memcpy_props(1) [OF r3] l2 by simp
  obtain r4 where r4: "memcpy r3 oldmember (cstr newmember @ [NUL]) 0 (n + 1) = Some r4"
    using memcpy_ok [of oldmember "n + 1" r3 0 "cstr newmember @ [NUL]"] l3 oj n by auto
  have l4: "length r4 = length ?J" using memcpy_props(1) [OF r4] l3 by simp
  have d5: "oldmember + n + 1 + (?L - (oldmember + k + 1)) \<le> length r4"
    using l4 cap aft by arith
  have s5: "oldmember + k + 1 + (?L - (oldmember + k + 1)) \<le> length ?R"
    using aft len by arith
  obtain r5 where r5: "memcpy r4 (oldmember + n + 1) ?R (oldmember + k + 1)
                         (?L - (oldmember + k + 1)) = Some r5"
    using memcpy_ok [OF d5 s5] by blast
  have l5: "length r5 = length ?J" using memcpy_props(1) [OF r5] l4 by simp
  have t3: "take oldmember r3 = take oldmember ?R"
    using memcpy_props(3) [OF r3] by simp
  have t4: "take oldmember r4 = take oldmember ?R"
    using memcpy_props(2) [OF r4] t3 by simp
  have n4: "take (n + 1) (drop oldmember r4) = cstr newmember @ [NUL]"
    using memcpy_props(3) [OF r4] n by simp
  have t5: "take (oldmember + n + 1) r5 = take (oldmember + n + 1) r4"
    using memcpy_props(2) [OF r5] .
  have a: "take oldmember r5 = take oldmember ?R"
  proof -
    have "take oldmember r5 = take oldmember (take (oldmember + n + 1) r5)" by simp
    also have "\<dots> = take oldmember (take (oldmember + n + 1) r4)" using t5 by simp
    also have "\<dots> = take oldmember r4" by simp
    finally show ?thesis using t4 by simp
  qed
  have b: "take (n + 1) (drop oldmember r5) = cstr newmember @ [NUL]"
  proof -
    have "take (n + 1) (drop oldmember r5) = drop oldmember (take (oldmember + n + 1) r5)"
      by (simp add: drop_take)
    also have "\<dots> = drop oldmember (take (oldmember + n + 1) r4)" using t5 by simp
    also have "\<dots> = take (n + 1) (drop oldmember r4)" by (simp add: drop_take)
    finally show ?thesis using n4 by simp
  qed
  have c: "take (?L - (oldmember + k + 1)) (drop (oldmember + n + 1) r5)
             = take (?L - (oldmember + k + 1)) (drop (oldmember + k + 1) ?R)"
    using memcpy_props(3) [OF r5] .
  have ml: "nat (int ?L + (int n - int k)) = ?L + n - k" using aft by simp
  have asrt: "0 < oldmember \<and> oldmember < ?L" using o by simp
  have na: "\<not> ?L < oldmember + k + 1" using aft by simp
  have "uevent_replace_member be newevent uevent oldmember newmember
          = uevent_parse (newevent\<lparr>raw := r5, msg_len := ?L + n - k\<rparr>) 0"
    unfolding uevent_replace_member_def
    using asrt sl na r1 r2 r3 r4 r5 ml n by (simp add: Let_def)
  then show ?thesis using l5 a b c by blast
qed

lemma uevent_parse_defaults: "uevent_parse uevent p = parse_loop p (defaults uevent)"
  by (simp add: uevent_parse_def defaults_def)

lemma defaults_raw [simp]: "raw (defaults ev) = raw ev" "msg_len (defaults ev) = msg_len ev"
  by (simp_all add: defaults_def)

lemma defaults_ptr: "g \<noteq> K_driver \<Longrightarrow> key_ptr g (defaults ev) \<noteq> Some (In_Raw q)"
  by (cases g) (simp_all add: defaults_def)

lemma defaults_same:
  "g \<noteq> K_driver \<Longrightarrow> key_ptr g (defaults ev') = key_ptr g (defaults ev) \<and>
                      key_val g (defaults ev') = key_val g (defaults ev)"
  by (cases g) (simp_all add: defaults_def field_str_def)

lemma cstr_le: "i < length xs \<Longrightarrow> xs ! i = NUL \<Longrightarrow> length (cstr xs) \<le> i"
proof (induction xs arbitrary: i)
  case Nil
  then show ?case by simp
next
  case (Cons x xs)
  then show ?case by (cases i) (auto simp: cstr_def)
qed

lemma cstr_nth_nul: "NUL \<in> set xs \<Longrightarrow> xs ! length (cstr xs) = NUL"
  by (induction xs) (auto simp: cstr_def)

lemma take3: "take (a + b + c) xs = take a xs @ take b (drop a xs) @ take c (drop (a + b) xs)"
  by (simp only: take_add append_assoc)

lemma parse_loop_skip_header:
  assumes "cstr (raw ev) \<noteq> []" "classify (raw ev) = None"
    and "length (cstr (raw ev)) + 1 < msg_len ev" "msg_len ev \<le> length (raw ev)"
    and "last (chunk ev 0) = NUL"
  shows "parse_loop 0 ev = parse_loop (length (cstr (raw ev)) + 1) ev"
proof -
  have p: "0 < msg_len ev" using assms(3) by simp
  have ne: "chunk ev 0 \<noteq> []" using p assms(4) by (rule chunk_nonempty)
  have nul: "NUL \<in> set (chunk ev 0)" using ne assms(5) by (rule nul_in_last)
  have tok: "cstr (chunk ev 0) = cstr (raw ev)" using chunk_cstr [OF nul] by simp
  have hd: "hd (chunk ev 0) \<noteq> NUL"
  proof
    assume "hd (chunk ev 0) = NUL"
    then have "cstr (chunk ev 0) = []" using ne by (cases "chunk ev 0") (auto simp: cstr_def)
    then show False using tok assms(1) by simp
  qed
  have cl: "classify (cstr (raw ev)) = None"
    using classify_cong [of "cstr (raw ev)" "raw ev"] assms(2) by simp
  have e: "entry 0 (cstr (raw ev)) ev = ev" using cl by (simp add: entry_def)
  have lc: "length (chunk ev 0) = msg_len ev" using chunk_length [OF assms(4), of 0] by simp
  show ?thesis
    using parse_loop_step [OF p assms(4,5)] hd tok e lc assms(3) by simp
qed

text \<open>What \<^verbatim>\<open>uevent_replace_member\<close> returns, for a frame \<open>F\<close> whose message ends with a NUL
  byte and a string property \<open>f\<close> that the parse of \<open>F\<close> from \<open>s\<close> found at \<open>oldmember\<close>: the
  event \<open>W\<close> with the new buffer, the view \<open>V'\<close> of that buffer from \<open>s\<close>, and the view \<open>W\<close>
  itself holds, which the function takes from the start of the buffer.\<close>

lemma uevent_replace_member_reparse:
  assumes parsed: "uevent_parse F s = Some V"
    and s: "s < msg_len F"
    and len: "msg_len F \<le> length (raw F)" and last: "raw F ! (msg_len F - 1) = NUL"
    and hdr: "nlh_size \<le> length (raw F)" "nlh_size \<le> length (raw newevent)"
    and ptr: "key_ptr f V = Some (In_Raw oldmember)" and f: "f \<noteq> K_driver"
    and cap: "msg_len F + length (cstr newmember)
                \<le> length (raw newevent) + length (cstr (drop oldmember (raw F)))"
  shows "\<exists>W V'. uevent_replace_member be newevent V oldmember newmember = Some W \<and>
              msg_len W = msg_len F + length (cstr newmember)
                            - length (cstr (drop oldmember (raw F))) \<and>
              uevent_parse W s = Some V' \<and>
              key_val f V' = Str_val (cstr newmember) \<and>
              (\<forall>g. g \<noteq> f \<and> g \<noteq> K_driver \<longrightarrow> key_val g V' = key_val g V) \<and>
              (s = 0 \<or> (cstr (raw F) \<noteq> [] \<and> classify (raw F) = None \<and>
                         s = length (cstr (raw F)) + 1) \<longrightarrow>
                 key_val f W = Str_val (cstr newmember) \<and>
                 (\<forall>g. g \<noteq> f \<and> g \<noteq> K_driver \<longrightarrow> key_val g W = key_val g V))"
proof -
  let ?R = "raw F" and ?L = "msg_len F" and ?ev = "defaults F"
  let ?old = "cstr (drop oldmember (raw F))" and ?new = "cstr newmember"
  let ?k = "length ?old" and ?n = "length ?new"
  have pl: "parse_loop s ?ev = Some V" using parsed by (simp add: uevent_parse_defaults)
  have s': "s < msg_len ?ev" and len': "msg_len ?ev \<le> length (raw ?ev)" using s len by simp_all
  have lastc: "last (chunk ?ev s) = NUL"
  proof -
    have ne: "take (?L - s) (drop s ?R) \<noteq> []" using s len by simp
    have "last (take (?L - s) (drop s ?R))
            = take (?L - s) (drop s ?R) ! (length (take (?L - s) (drop s ?R)) - 1)"
      using ne by (rule last_conv_nth)
    also have "\<dots> = ?R ! (?L - 1)" using s len by simp
    finally show ?thesis using last by (simp add: chunk_def)
  qed
  obtain w where w: "parse_loop s ?ev = Some w" "raw w = raw ?ev" "msg_len w = msg_len ?ev"
    "\<forall>g. key_ptr g w = key_ptr g ?ev \<or>
         (\<exists>q. key_ptr g w = Some (In_Raw q) \<and> s < q \<and> q < msg_len ?ev)"
    using parse_loop_ptr [OF s' len' lastc] by blast
  have wV: "w = V" using w(1) pl by simp
  have rV: "raw V = ?R" and lV: "msg_len V = ?L" using w(2,3) wV by simp_all
  have "key_ptr f V = key_ptr f ?ev \<or>
         (\<exists>q. key_ptr f V = Some (In_Raw q) \<and> s < q \<and> q < msg_len ?ev)"
    using w(4) wV by blast
  then have o: "s < oldmember" "oldmember < ?L"
    using ptr defaults_ptr [OF f, of F oldmember] by auto
  have idx: "?L - 1 - oldmember < length (drop oldmember ?R)" using o len by simp
  have at: "drop oldmember ?R ! (?L - 1 - oldmember) = NUL" using o len last by simp
  have nul: "NUL \<in> set (drop oldmember ?R)" using idx at by (metis nth_mem)
  have kle: "?k \<le> ?L - 1 - oldmember" using idx at by (rule cstr_le)
  have aft: "oldmember + ?k + 1 \<le> ?L" using kle o by simp
  obtain r where r: "uevent_replace_member be newevent V oldmember newmember
               = uevent_parse (newevent\<lparr>raw := r, msg_len := ?L + ?n - ?k\<rparr>) 0"
      "length r = length (raw newevent)"
      "take oldmember r = take oldmember ?R"
      "take (?n + 1) (drop oldmember r) = ?new @ [NUL]"
      "take (?L - (oldmember + ?k + 1)) (drop (oldmember + ?n + 1) r)
         = take (?L - (oldmember + ?k + 1)) (drop (oldmember + ?k + 1) ?R)"
    using replace_member_raw [where oldmember = oldmember and uevent = V and k = ?k
        and newmember = newmember and n = ?n and newevent = newevent and be = be]
      o nul aft len hdr cap rV lV
    by auto
  let ?ev' = "defaults (newevent\<lparr>raw := r, msg_len := ?L + ?n - ?k\<rparr>)"
  let ?A = "take (oldmember - s) (drop s ?R)"
  let ?C2 = "take (?L - (oldmember + ?k + 1)) (drop (oldmember + ?k + 1) ?R)"
  have rep: "uevent_replace_member be newevent V oldmember newmember = parse_loop 0 ?ev'"
    using r(1) by (simp add: uevent_parse_defaults)
  have lenr: "msg_len ?ev' \<le> length (raw ?ev')" using r(2) cap by simp
  have cA: "chunk ?ev s = ?A @ ?old @ NUL # ?C2"
  proof -
    have e: "?L - s = (oldmember - s) + (?k + 1) + (?L - (oldmember + ?k + 1))"
      using o aft by simp
    have "take (?L - s) (drop s ?R)
            = ?A @ take (?k + 1) (drop (oldmember - s) (drop s ?R)) @
              take (?L - (oldmember + ?k + 1)) (drop (oldmember - s + (?k + 1)) (drop s ?R))"
      by (subst e) (rule take3)
    moreover have "drop (oldmember - s) (drop s ?R) = drop oldmember ?R" using o by simp
    moreover have "drop (oldmember - s + (?k + 1)) (drop s ?R) = drop (oldmember + ?k + 1) ?R"
      using o by (simp add: add.commute add.left_commute)
    moreover have "take (?k + 1) (drop oldmember ?R) = ?old @ [NUL]"
      using nul by (rule take_cstr_nul)
    ultimately show ?thesis by (simp add: chunk_def)
  qed
  have cA': "chunk ?ev' s = ?A @ ?new @ NUL # ?C2"
  proof -
    have e: "?L + ?n - ?k - s = (oldmember - s) + (?n + 1) + (?L - (oldmember + ?k + 1))"
      using o aft by simp
    have "take (?L + ?n - ?k - s) (drop s r)
            = take (oldmember - s) (drop s r) @ take (?n + 1) (drop (oldmember - s) (drop s r)) @
              take (?L - (oldmember + ?k + 1)) (drop (oldmember - s + (?n + 1)) (drop s r))"
      by (subst e) (rule take3)
    moreover have "drop (oldmember - s) (drop s r) = drop oldmember r" using o by simp
    moreover have "drop (oldmember - s + (?n + 1)) (drop s r) = drop (oldmember + ?n + 1) r"
      using o by (simp add: add.commute add.left_commute)
    moreover have "take (oldmember - s) (drop s r) = ?A"
    proof -
      have "take (oldmember - s) (drop s r) = drop s (take oldmember r)" by (simp add: drop_take)
      also have "\<dots> = drop s (take oldmember ?R)" using r(3) by simp
      finally show ?thesis by (simp add: drop_take)
    qed
    ultimately show ?thesis using r(4,5) by (simp add: chunk_def)
  qed
  have lastc': "last (chunk ?ev' s) = NUL" using lastc cA cA' by (simp split: if_splits)
  have lA: "s + length ?A = oldmember" using o len by simp
  have ptrA: "key_ptr f V = Some (In_Raw (s + length ?A))" using ptr lA by simp
  have sM: "s < msg_len ?ev'" using o aft by simp
  have l0: "last (chunk ?ev' 0) = NUL"
  proof -
    have "chunk ?ev' s = drop s (chunk ?ev' 0)" using chunk_drop [of ?ev' 0 s] by simp
    moreover have "s < length (chunk ?ev' 0)"
      using chunk_length [OF lenr, of 0] sM by simp
    ultimately show ?thesis using lastc' by simp
  qed
  have pos: "0 < msg_len ?ev'" using sM by simp
  obtain W where W: "parse_loop 0 ?ev' = Some W" "raw W = raw ?ev'" "msg_len W = msg_len ?ev'"
    using parse_loop_ptr [OF pos lenr l0] by blast
  have res: "uevent_replace_member be newevent V oldmember newmember = Some W"
    using rep W(1) by simp
  have mW: "msg_len W = ?L + ?n - ?k" using W(3) by simp
  let ?E = "defaults W"
  have cE: "chunk ?E s = ?A @ ?new @ NUL # ?C2" using cA' W(2,3) by (simp add: chunk_def)
  have lenE: "msg_len ?E \<le> length (raw ?E)" using lenr W(2,3) by simp
  have invE: "\<forall>g. g \<noteq> K_driver \<longrightarrow> key_ptr g ?E = key_ptr g ?ev \<and> key_val g ?E = key_val g ?ev \<and>
              (\<forall>q. key_ptr g ?ev = Some (In_Raw q) \<longrightarrow> q < s)"
    using defaults_same defaults_ptr by blast
  obtain V' where V': "parse_loop s ?E = Some V'" "key_val f V' = Str_val ?new"
      "\<forall>g. g \<noteq> f \<and> g \<noteq> K_driver \<longrightarrow> key_val g V' = key_val g V"
    using parse_loop_rewrite [OF cA cE cstr_nul_free_set cstr_nul_free_set lastc len' lenE invE pl ptrA f]
    by blast
  have pE: "uevent_parse W s = Some V'" using V'(1) by (simp add: uevent_parse_defaults)
  have view: "key_val f W = Str_val ?new \<and>
              (\<forall>g. g \<noteq> f \<and> g \<noteq> K_driver \<longrightarrow> key_val g W = key_val g V)"
    if start: "s = 0 \<or> (cstr ?R \<noteq> [] \<and> classify ?R = None \<and> s = length (cstr ?R) + 1)"
  proof -
    have inv: "\<forall>g. g \<noteq> K_driver \<longrightarrow> key_ptr g ?ev' = key_ptr g ?ev \<and> key_val g ?ev' = key_val g ?ev \<and>
              (\<forall>q. key_ptr g ?ev = Some (In_Raw q) \<longrightarrow> q < s)"
      using defaults_same defaults_ptr by blast
    obtain w' where w': "parse_loop s ?ev' = Some w'" "key_val f w' = Str_val ?new"
        "\<forall>g. g \<noteq> f \<and> g \<noteq> K_driver \<longrightarrow> key_val g w' = key_val g V"
      using parse_loop_rewrite [OF cA cA' cstr_nul_free_set cstr_nul_free_set lastc len' lenr inv pl ptrA f]
      by blast
    have skip: "parse_loop 0 ?ev' = parse_loop s ?ev'"
    proof (cases "s = 0")
      case True
      then show ?thesis by simp
    next
      case False
      then have st: "cstr ?R \<noteq> []" "classify ?R = None" "s = length (cstr ?R) + 1"
        using start by auto
      have nR: "NUL \<in> set ?R" using nul by (meson in_set_dropD)
      have "?R ! length (cstr ?R) = NUL" using nR by (rule cstr_nth_nul)
      moreover have "length (cstr ?R) < oldmember" using st(3) o by simp
      moreover have "oldmember \<le> length ?R" using o len by simp
      ultimately have nt: "NUL \<in> set (take oldmember ?R)"
        by (metis (no_types, lifting) in_set_conv_nth length_take min.absorb2 nth_take order_less_le_trans)
      have c1: "cstr (take oldmember ?R) = cstr ?R" using nt by (rule cstr_take)
      have nt': "NUL \<in> set (take oldmember r)" using nt r(3) by simp
      have c2: "cstr (take oldmember r) = cstr r" using nt' by (rule cstr_take)
      have cr: "cstr r = cstr ?R" using c1 c2 r(3) by simp
      have clr: "classify r = None" using classify_cong [OF cr] st(2) by simp
      have sl: "length (cstr (raw ?ev')) + 1 < msg_len ?ev'" using cr st(3) o aft by simp
      have l0: "last (chunk ?ev' 0) = NUL"
      proof -
        have "chunk ?ev' s = drop s (chunk ?ev' 0)" using chunk_drop [of ?ev' 0 s] by simp
        moreover have "s < length (chunk ?ev' 0)"
          using chunk_length [OF lenr, of 0] o aft by simp
        ultimately show ?thesis using lastc' by simp
      qed
      show ?thesis
        using parse_loop_skip_header [of ?ev'] st(1) clr sl lenr l0 cr st(3) by simp
    qed
    have "W = w'" using skip W(1) w'(1) by simp
    then show ?thesis using w'(2,3) by simp
  qed
  show ?thesis using res mW pE V'(2,3) view by blast
qed

text \<open>
  C3. Let \<open>V\<close> be the view \<^verbatim>\<open>uevent_parse\<close> derives from a frame \<open>F\<close> whose message ends
  with a NUL byte, parsed from any start pointer \<open>s\<close> inside the message, and let \<open>f\<close> be a
  string property other than \<^verbatim>\<open>driver\<close> that \<open>V\<close> found in the frame, at \<open>oldmember\<close>. When
  both buffers hold a header and the new frame fits into the new buffer,
  \<^verbatim>\<open>uevent_replace_member\<close> returns an event \<open>W\<close> whose length is that of \<open>F\<close> plus the
  length of the new value minus that of the old one, and parsing \<open>W\<close> from \<open>s\<close> gives a view
  \<open>V'\<close> in which \<open>f\<close> is the new value and every other recognized property, strings and
  integers, has the value it has in \<open>V\<close>. (\<^verbatim>\<open>driver\<close> is left out: where the frame has no
  \<^verbatim>\<open>DRIVER=\<close> entry the field keeps what it held before the parse.)
\<close>

theorem uevent_replace_member_parse:
  assumes parsed: "uevent_parse F s = Some V"
    and s: "s < msg_len F"
    and len: "msg_len F \<le> length (raw F)" and last: "raw F ! (msg_len F - 1) = NUL"
    and hdr: "nlh_size \<le> length (raw F)" "nlh_size \<le> length (raw newevent)"
    and ptr: "key_ptr f V = Some (In_Raw oldmember)" and f: "f \<noteq> K_driver"
    and cap: "msg_len F + length (cstr newmember)
                \<le> length (raw newevent) + length (cstr (drop oldmember (raw F)))"
  shows "\<exists>W V'. uevent_replace_member be newevent V oldmember newmember = Some W \<and>
              msg_len W = msg_len F + length (cstr newmember)
                            - length (cstr (drop oldmember (raw F))) \<and>
              uevent_parse W s = Some V' \<and>
              key_val f V' = Str_val (cstr newmember) \<and>
              (\<forall>g. g \<noteq> f \<and> g \<noteq> K_driver \<longrightarrow> key_val g V' = key_val g V)"
  using uevent_replace_member_reparse [OF assms, of be] by blast

theorem uevent_replace_member_parse_witness:
  "(\<exists>W V'. uevent_replace_member False (mem_new_uevent example_env) net_event 93 ''cmleth0'' = Some W \<and>
           msg_len W = 113 \<and> uevent_parse W 27 = Some V' \<and>
           key_val K_interface V' = Str_val ''cmleth0'' \<and>
           key_val K_devpath V' = Str_val ''/devices/pci0/net/eth5'' \<and>
           key_val K_action V' = Str_val ''add'' \<and>
           key_val K_subsystem V' = Str_val ''net'' \<and>
           key_val K_major V' = Int_val (-1) \<and>
           key_val K_vendor V' = Hex_val 0) \<and>
   (\<exists>W V'. uevent_replace_member False (mem_new_uevent example_env) header_entry_event 36 ''0'' = Some W \<and>
           msg_len W = 38 \<and> uevent_parse W 14 = Some V' \<and>
           key_val K_synth V' = Str_val ''0'' \<and>
           key_val K_devname V' = Str_val [] \<and>
           key_val K_action V' = Str_val ''add'') \<and>
   (\<exists>W V'. uevent_replace_member False (mem_new_uevent example_env) udev_event 61 ''cmleth0'' = Some W \<and>
           msg_len W = 69 \<and> uevent_parse W 40 = Some V' \<and>
           key_val K_interface V' = Str_val ''cmleth0'' \<and>
           key_val K_action V' = Str_val ''add'')"
proof -
  have 7: "nlh_size \<le> length (raw (mem_new_uevent example_env))"
    by (simp add: example_env_def zeroed_def nlh_size_def)
  let ?F = "zeroed (net_frame @ replicate 18 NUL) 110"
  have 1: "uevent_parse ?F 27 = Some net_event" by code_simp
  have 3: "27 < msg_len ?F" by (simp add: zeroed_def)
  have 4: "msg_len ?F \<le> length (raw ?F)" by (simp add: zeroed_def net_frame_def)
  have 5: "raw ?F ! (msg_len ?F - 1) = NUL" by code_simp
  have 6: "nlh_size \<le> length (raw ?F)" by (simp add: zeroed_def net_frame_def nlh_size_def)
  have 8: "key_ptr K_interface net_event = Some (In_Raw 93)" by (simp add: net_event_def)
  have 9: "K_interface \<noteq> K_driver" by simp
  have old: "length (cstr (drop 93 (raw ?F))) = 4" by code_simp
  have 10: "msg_len ?F + length (cstr ''cmleth0'')
              \<le> length (raw (mem_new_uevent example_env)) + length (cstr (drop 93 (raw ?F)))"
    by (simp add: example_env_def zeroed_def cstr_def)
  have vals: "key_val K_devpath net_event = Str_val ''/devices/pci0/net/eth5''"
    "key_val K_action net_event = Str_val ''add''"
    "key_val K_subsystem net_event = Str_val ''net''"
    "key_val K_major net_event = Int_val (-1)"
    "key_val K_vendor net_event = Hex_val 0"
    by code_simp+
  obtain W V' where W: "uevent_replace_member False (mem_new_uevent example_env) net_event 93 ''cmleth0''
        = Some W"
      "msg_len W = msg_len ?F + length (cstr ''cmleth0'') - length (cstr (drop 93 (raw ?F)))"
      "uevent_parse W 27 = Some V'"
      "key_val K_interface V' = Str_val (cstr ''cmleth0'')"
      "\<forall>g. g \<noteq> K_interface \<and> g \<noteq> K_driver \<longrightarrow> key_val g V' = key_val g net_event"
    using uevent_replace_member_parse [OF 1 3 4 5 6 7 8 9 10, of False] by blast
  have a1: "msg_len W = 113" using W(2) old by (simp add: zeroed_def cstr_def)
  have a2: "key_val K_interface V' = Str_val ''cmleth0''"
    using W(4) by (simp add: cstr_def del: key_val.simps)
  have a3: "key_val K_devpath V' = key_val K_devpath net_event"
    "key_val K_action V' = key_val K_action net_event"
    "key_val K_subsystem V' = key_val K_subsystem net_event"
    "key_val K_major V' = key_val K_major net_event"
    "key_val K_vendor V' = key_val K_vendor net_event"
    using W(5) by blast+
  have first: "\<exists>W V'. uevent_replace_member False (mem_new_uevent example_env) net_event 93 ''cmleth0'' = Some W \<and>
           msg_len W = 113 \<and> uevent_parse W 27 = Some V' \<and>
           key_val K_interface V' = Str_val ''cmleth0'' \<and>
           key_val K_devpath V' = Str_val ''/devices/pci0/net/eth5'' \<and>
           key_val K_action V' = Str_val ''add'' \<and>
           key_val K_subsystem V' = Str_val ''net'' \<and>
           key_val K_major V' = Int_val (-1) \<and>
           key_val K_vendor V' = Hex_val 0"
    using W(1,3) a1 a2 a3 vals by (simp del: key_val.simps)
  let ?G = "zeroed (header_entry_frame @ replicate 27 NUL) 73"
  have h1: "uevent_parse ?G 14 = Some header_entry_event" by code_simp
  have h3: "14 < msg_len ?G" by (simp add: zeroed_def)
  have h4: "msg_len ?G \<le> length (raw ?G)" by (simp add: zeroed_def header_entry_frame_def)
  have h5: "raw ?G ! (msg_len ?G - 1) = NUL" by code_simp
  have h6: "nlh_size \<le> length (raw ?G)" by (simp add: zeroed_def header_entry_frame_def nlh_size_def)
  have h8: "key_ptr K_synth header_entry_event = Some (In_Raw 36)" by (simp add: header_entry_event_def)
  have h9: "K_synth \<noteq> K_driver" by simp
  have hold: "length (cstr (drop 36 (raw ?G))) = 36" by code_simp
  have h10: "msg_len ?G + length (cstr ''0'')
              \<le> length (raw (mem_new_uevent example_env)) + length (cstr (drop 36 (raw ?G)))"
    using hold by (simp add: example_env_def zeroed_def cstr_def)
  have hvals: "key_val K_devname header_entry_event = Str_val []"
    "key_val K_action header_entry_event = Str_val ''add''"
    by code_simp+
  obtain X Y where X: "uevent_replace_member False (mem_new_uevent example_env) header_entry_event 36 ''0''
        = Some X"
      "msg_len X = msg_len ?G + length (cstr ''0'') - length (cstr (drop 36 (raw ?G)))"
      "uevent_parse X 14 = Some Y"
      "key_val K_synth Y = Str_val (cstr ''0'')"
      "\<forall>g. g \<noteq> K_synth \<and> g \<noteq> K_driver \<longrightarrow> key_val g Y = key_val g header_entry_event"
    using uevent_replace_member_parse [OF h1 h3 h4 h5 h6 7 h8 h9 h10, of False] by blast
  have b1: "msg_len X = 38" using X(2) hold by (simp add: zeroed_def cstr_def)
  have b2: "key_val K_synth Y = Str_val ''0''"
    using X(4) by (simp add: cstr_def del: key_val.simps)
  have b3: "key_val K_devname Y = key_val K_devname header_entry_event"
    "key_val K_action Y = key_val K_action header_entry_event"
    using X(5) by blast+
  have second: "\<exists>W V'. uevent_replace_member False (mem_new_uevent example_env) header_entry_event 36 ''0'' = Some W \<and>
           msg_len W = 38 \<and> uevent_parse W 14 = Some V' \<and>
           key_val K_synth V' = Str_val ''0'' \<and>
           key_val K_devname V' = Str_val [] \<and>
           key_val K_action V' = Str_val ''add''"
    using X(1,3) b1 b2 b3 hvals by (simp del: key_val.simps)
  let ?U = "zeroed (udev_frame @ replicate 14 NUL) 66"
  have u1: "uevent_parse ?U 40 = Some udev_event" by code_simp
  have u3: "40 < msg_len ?U" by (simp add: zeroed_def)
  have u4: "msg_len ?U \<le> length (raw ?U)" by (simp add: zeroed_def udev_frame_def)
  have u5: "raw ?U ! (msg_len ?U - 1) = NUL" by code_simp
  have u6: "nlh_size \<le> length (raw ?U)" by (simp add: zeroed_def udev_frame_def nlh_size_def)
  have u8: "key_ptr K_interface udev_event = Some (In_Raw 61)" by (simp add: udev_event_def)
  have uold: "length (cstr (drop 61 (raw ?U))) = 4" by code_simp
  have u10: "msg_len ?U + length (cstr ''cmleth0'')
              \<le> length (raw (mem_new_uevent example_env)) + length (cstr (drop 61 (raw ?U)))"
    using uold by (simp add: example_env_def zeroed_def cstr_def)
  have uvals: "key_val K_action udev_event = Str_val ''add''" by code_simp
  obtain P Q where P: "uevent_replace_member False (mem_new_uevent example_env) udev_event 61 ''cmleth0''
        = Some P"
      "msg_len P = msg_len ?U + length (cstr ''cmleth0'') - length (cstr (drop 61 (raw ?U)))"
      "uevent_parse P 40 = Some Q"
      "key_val K_interface Q = Str_val (cstr ''cmleth0'')"
      "\<forall>g. g \<noteq> K_interface \<and> g \<noteq> K_driver \<longrightarrow> key_val g Q = key_val g udev_event"
    using uevent_replace_member_parse [OF u1 u3 u4 u5 u6 7 u8 9 u10, of False] by blast
  have c1: "msg_len P = 69" using P(2) uold by (simp add: zeroed_def cstr_def)
  have c2: "key_val K_interface Q = Str_val ''cmleth0''"
    using P(4) by (simp add: cstr_def del: key_val.simps)
  have c3: "key_val K_action Q = key_val K_action udev_event"
    using P(5) by blast
  have third: "\<exists>W V'. uevent_replace_member False (mem_new_uevent example_env) udev_event 61 ''cmleth0'' = Some W \<and>
           msg_len W = 69 \<and> uevent_parse W 40 = Some V' \<and>
           key_val K_interface V' = Str_val ''cmleth0'' \<and>
           key_val K_action V' = Str_val ''add''"
    using P(1,3) c1 c2 c3 uvals by (simp del: key_val.simps)
  show ?thesis using first second third by blast
qed

text \<open>The view \<^verbatim>\<open>uevent_replace_member\<close> itself leaves in the event it returns comes from its
  own call of \<^verbatim>\<open>uevent_parse\<close>, which starts at \<^verbatim>\<open>msg.raw\<close>. It is the view of the theorem
  above when \<open>F\<close> was parsed from the start of the buffer too (as the timer callback and
  \<^verbatim>\<open>uevent_rename_interface\<close> parse), or from behind a header line that is not itself a
  recognized entry (as \<^verbatim>\<open>uevent_handle\<close> parses a kernel frame \<^verbatim>\<open>action@devpath\<close>).\<close>

lemma uevent_replace_member_view:
  assumes parsed: "uevent_parse F s = Some V"
    and start: "s = 0 \<or> (cstr (raw F) \<noteq> [] \<and> classify (raw F) = None \<and>
                          s = length (cstr (raw F)) + 1)"
    and s: "s < msg_len F"
    and len: "msg_len F \<le> length (raw F)" and last: "raw F ! (msg_len F - 1) = NUL"
    and hdr: "nlh_size \<le> length (raw F)" "nlh_size \<le> length (raw newevent)"
    and ptr: "key_ptr f V = Some (In_Raw oldmember)" and f: "f \<noteq> K_driver"
    and cap: "msg_len F + length (cstr newmember)
                \<le> length (raw newevent) + length (cstr (drop oldmember (raw F)))"
  shows "\<exists>W. uevent_replace_member be newevent V oldmember newmember = Some W \<and>
              msg_len W = msg_len F + length (cstr newmember)
                             - length (cstr (drop oldmember (raw F))) \<and>
              key_val f W = Str_val (cstr newmember) \<and>
              (\<forall>g. g \<noteq> f \<and> g \<noteq> K_driver \<longrightarrow> key_val g W = key_val g V)"
  using uevent_replace_member_reparse [OF parsed s len last hdr ptr f cap, of be] start by blast

text \<open>Where the bytes before the start pointer are themselves a recognized entry, the
  event returned holds that entry as well. \<open>header_entry_frame\<close> passes the \<^verbatim>\<open>@\<close> test of
  \<^verbatim>\<open>uevent_handle\<close>, so \<^verbatim>\<open>handle_kernel_event\<close> parses it from offset 14, behind the first
  line: no \<^verbatim>\<open>DEVNAME\<close>. The event \<^verbatim>\<open>uevent_replace_member\<close> returns for its \<^verbatim>\<open>SYNTH_UUID\<close> has
  the \<^verbatim>\<open>DEVNAME\<close> of the first line; parsed from offset 14 again, its buffer has none.\<close>

lemma uevent_replace_member_view_header_entry:
  "length (cstr header_entry_frame) + 1 = 14 \<and>
   uevent_parse (zeroed (header_entry_frame @ replicate 27 NUL) (length header_entry_frame)) 14
     = Some header_entry_event \<and>
   key_val K_devname header_entry_event = Str_val [] \<and>
   map_option (key_val K_synth)
     (uevent_replace_member False (mem_new_uevent example_env) header_entry_event 36 ''0'')
     = Some (Str_val ''0'') \<and>
   map_option (key_val K_devname)
     (uevent_replace_member False (mem_new_uevent example_env) header_entry_event 36 ''0'')
     = Some (Str_val ''sda@x'')"
  by code_simp

section \<open>Properties of the dispatcher and of the handlers\<close>

lemma netdev_lookup_first:
  "memcmp6_eq mac (net_mac m) \<Longrightarrow> \<forall>x \<in> set pre. \<not> memcmp6_eq mac (net_mac x) \<Longrightarrow>
   netdev_lookup mac (pre @ m # post) = Some (net_container m, net_pnet_cfg m)"
  by (induction pre) auto

lemma netdev_lookup_none:
  "\<forall>x \<in> set l. \<not> memcmp6_eq mac (net_mac x) \<Longrightarrow> netdev_lookup mac l = None"
  by (induction l) auto

lemma netdev_state_check_True: "netdev_state_check env c"
  by (cases c) (auto simp: netdev_state_check_def)

text \<open>
  C1 (what the code does). The target of \<^verbatim>\<open>uevent_netdev_move\<close> is resolved as the claim
  says (\<open>netdev_target\<close>: the first mapping with the interface's MAC, else c0), but the
  liveness test that follows is a disjunction of three inequalities against three
  different states, which holds for every state. So the function never reaches the
  rename, the attach or the injection: for every event it returns -1, having logged the
  missing MAC as an error or the skip as a warning, and nothing else.
\<close>

theorem uevent_netdev_move_never_moves:
  "uevent_netdev_move env uevent st =
     Some (-1, emit (case network_get_mac_by_ifname env (field_str uevent (interface uevent)) of
                       None \<Rightarrow> Log_error | Some _ \<Rightarrow> Log_warn) st)"
  by (simp add: uevent_netdev_move_def netdev_state_check_True split: option.splits prod.splits)

theorem uevent_netdev_move_running_c0:
  "cmld_containers_get_c0 example_env = Some 0 \<and>
   container_get_state example_env 0 = CONTAINER_STATE_RUNNING \<and>
   netdev_target example_env example_mac (uevent_container_netdev_mapping_list example_router)
     = (Some 0, None) \<and>
   uevent_netdev_move example_env net_event example_router
     = Some (-1, example_router\<lparr>effects := [Log_warn]\<rparr>)"
  using uevent_netdev_move_never_moves [of example_env net_event example_router]
  by (simp add: example_env_def example_router_def netdev_target_def emit_def)

text \<open>
  C5 (what the code does). \<^verbatim>\<open>uevent_parse\<close> resets every field it knows except
  \<^verbatim>\<open>driver\<close>: its list of defaults assigns \<^verbatim>\<open>devname\<close> twice and \<^verbatim>\<open>driver\<close> never. On a
  frame without a \<^verbatim>\<open>DRIVER=\<close> entry the field keeps whatever the structure held before
  the call, \<open>d\<close> below: the null pointer in an event fresh from \<^verbatim>\<open>mem_new0\<close>, an old
  pointer in the copy the timer callback parses again. The other fields of the frame
  come out as the claim says.
\<close>

theorem uevent_parse_keeps_driver:
  "uevent_parse ((zeroed usb_frame 205)\<lparr>driver := d\<rparr>) 42 = Some (usb_event\<lparr>driver := d\<rparr>)"
  by code_simp

text \<open>When the old member lies behind the 40 bytes the header view covers and the message
  ends with a NUL byte, the call returns an event of the expected length whose first 40
  bytes are those of the old buffer: every field of the header view, \<^verbatim>\<open>properties_len\<close>
  included, is the old one.\<close>

lemma uevent_replace_member_header:
  assumes o: "nlh_size \<le> oldmember" "oldmember < msg_len uevent"
    and len: "msg_len uevent \<le> length (raw uevent)"
    and last: "raw uevent ! (msg_len uevent - 1) = NUL"
    and hdr: "nlh_size \<le> length (raw newevent)"
    and cap: "msg_len uevent + length (cstr newmember)
                \<le> length (raw newevent) + length (cstr (drop oldmember (raw uevent)))"
  shows "\<exists>V'. uevent_replace_member be newevent uevent oldmember newmember = Some V' \<and>
              msg_len V' = msg_len uevent + length (cstr newmember)
                             - length (cstr (drop oldmember (raw uevent))) \<and>
              take nlh_size (raw V') = take nlh_size (raw uevent)"
proof -
  let ?R = "raw uevent" and ?L = "msg_len uevent"
  let ?old = "cstr (drop oldmember (raw uevent))" and ?new = "cstr newmember"
  let ?k = "length ?old" and ?n = "length ?new"
  have o0: "0 < oldmember" using o(1) by (simp add: nlh_size_def)
  have idx: "?L - 1 - oldmember < length (drop oldmember ?R)" using o len by simp
  have at: "drop oldmember ?R ! (?L - 1 - oldmember) = NUL" using o len last by simp
  have nul: "NUL \<in> set (drop oldmember ?R)" using idx at by (metis nth_mem)
  have kle: "?k \<le> ?L - 1 - oldmember" using idx at by (rule cstr_le)
  have aft: "oldmember + ?k + 1 \<le> ?L" using kle o by simp
  have hR: "nlh_size \<le> length ?R" using o len by simp
  obtain r where r: "uevent_replace_member be newevent uevent oldmember newmember
               = uevent_parse (newevent\<lparr>raw := r, msg_len := ?L + ?n - ?k\<rparr>) 0"
      "length r = length (raw newevent)"
      "take oldmember r = take oldmember ?R"
      "take (?n + 1) (drop oldmember r) = ?new @ [NUL]"
      "take (?L - (oldmember + ?k + 1)) (drop (oldmember + ?n + 1) r)
         = take (?L - (oldmember + ?k + 1)) (drop (oldmember + ?k + 1) ?R)"
    using replace_member_raw [where oldmember = oldmember and uevent = uevent and k = ?k
        and newmember = newmember and n = ?n and newevent = newevent and be = be]
      o0 o(2) nul aft len hR hdr cap
    by auto
  let ?ev' = "defaults (newevent\<lparr>raw := r, msg_len := ?L + ?n - ?k\<rparr>)"
  let ?C2 = "take (?L - (oldmember + ?k + 1)) (drop (oldmember + ?k + 1) ?R)"
  have lenr: "msg_len ?ev' \<le> length (raw ?ev')" using r(2) cap by simp
  have p0: "0 < msg_len ?ev'" using o0 aft by simp
  have c: "chunk ?ev' 0 = take oldmember r @ ?new @ NUL # ?C2"
  proof -
    have e: "?L + ?n - ?k = oldmember + (?n + 1) + (?L - (oldmember + ?k + 1))"
      using aft by simp
    have "take (?L + ?n - ?k) r
            = take oldmember r @ take (?n + 1) (drop oldmember r) @
              take (?L - (oldmember + ?k + 1)) (drop (oldmember + (?n + 1)) r)"
      by (subst e) (rule take3)
    then show ?thesis using r(4,5) by (simp add: chunk_def add.assoc)
  qed
  have lC2: "?C2 \<noteq> [] \<longrightarrow> last ?C2 = NUL"
  proof
    assume ne: "?C2 \<noteq> []"
    have l2: "length ?C2 = ?L - (oldmember + ?k + 1)" using aft len by simp
    have pos: "0 < length ?C2" using ne by simp
    have "last ?C2 = ?C2 ! (length ?C2 - 1)" using ne by (rule last_conv_nth)
    also have "\<dots> = drop (oldmember + ?k + 1) ?R ! (length ?C2 - 1)"
    proof (rule nth_take)
      show "length ?C2 - 1 < ?L - (oldmember + ?k + 1)" using pos l2 by arith
    qed
    also have "\<dots> = ?R ! (oldmember + ?k + 1 + (length ?C2 - 1))"
      using aft len by (intro nth_drop) simp
    also have "oldmember + ?k + 1 + (length ?C2 - 1) = ?L - 1"
      using pos l2 aft by arith
    finally show "last ?C2 = NUL" using last by simp
  qed
  have lastc: "last (chunk ?ev' 0) = NUL" using c lC2 by simp
  obtain w where w: "parse_loop 0 ?ev' = Some w" "raw w = raw ?ev'" "msg_len w = msg_len ?ev'"
    using parse_loop_ptr [OF p0 lenr lastc] by blast
  have res: "uevent_replace_member be newevent uevent oldmember newmember = Some w"
    using r(1) w(1) by (simp add: uevent_parse_defaults)
  have "take nlh_size (raw w) = take nlh_size (take oldmember r)"
    using w(2) o(1) by (simp add: min_def)
  also have "\<dots> = take nlh_size ?R" using r(3) o(1) by (simp add: min_def)
  finally show ?thesis using res w(3) by simp
qed

lemma nlh_fields_of_header:
  assumes "take nlh_size a = take nlh_size b"
  shows "nlh_prefix a = nlh_prefix b \<and> nlh_magic a = nlh_magic b \<and>
         nlh_header_size a = nlh_header_size b \<and> nlh_properties_off a = nlh_properties_off b \<and>
         nlh_properties_len a = nlh_properties_len b \<and> nlh_filters a = nlh_filters b"
proof -
  have f: "\<And>d n. d + n \<le> 40 \<Longrightarrow> take n (drop d a) = take n (drop d b)"
  proof -
    fix d n :: nat
    assume dn: "d + n \<le> 40"
    have "take n (drop d a) = take n (drop d (take 40 a))"
      using dn by (simp add: drop_take min_def)
    also have "\<dots> = take n (drop d (take 40 b))" using assms by (simp add: nlh_size_def)
    also have "\<dots> = take n (drop d b)" using dn by (simp add: drop_take min_def)
    finally show "take n (drop d a) = take n (drop d b)" .
  qed
  show ?thesis
    using f [of 0 8] f [of 8 4] f [of 12 4] f [of 16 4] f [of 20 4] f [of 24 16]
    by (simp add: nlh_prefix_def nlh_magic_def nlh_header_size_def nlh_properties_off_def
        nlh_properties_len_def nlh_filters_def)
qed

text \<open>What \<^verbatim>\<open>uevent_parse\<close> leaves in the pointer fields, for a message that ends with a NUL
  byte: a field is the pointer to an entry of the message, or what \<open>defaults\<close> left
  there, which for \<^verbatim>\<open>driver\<close> is the value it had before the call.\<close>

lemma uevent_parse_pointers:
  assumes "s < msg_len F" "msg_len F \<le> length (raw F)" "last (chunk F s) = NUL"
  shows "\<exists>V. uevent_parse F s = Some V \<and>
             (\<forall>g. key_ptr g V = key_ptr g (defaults F) \<or>
                  (\<exists>q. key_ptr g V = Some (In_Raw q) \<and> s < q \<and> q < msg_len F)) \<and>
             key_ptr K_driver (defaults F) = Some (driver F)"
proof -
  have 1: "s < msg_len (defaults F)" "msg_len (defaults F) \<le> length (raw (defaults F))"
    using assms by simp_all
  have 2: "last (chunk (defaults F) s) = NUL" using assms(3) by (simp add: chunk_def)
  show ?thesis
    using parse_loop_ptr [OF 1 2] by (auto simp: uevent_parse_defaults defaults_def)
qed

text \<open>
  C2 (what the code does at one input). \<open>udev_frame\<close> is a little-endian udev frame of
  66 bytes with \<^verbatim>\<open>properties_len = 26\<close>; its \<^verbatim>\<open>INTERFACE\<close> value \<^verbatim>\<open>eth5\<close> sits at offset 61.
  Rewriting it to \<^verbatim>\<open>cmleth0\<close> gives a frame of 69 = 66 + 7 - 4 bytes that reads
  \<^verbatim>\<open>INTERFACE=cmleth0\<close>, but whose whole header, \<^verbatim>\<open>properties_len\<close> included, is the old
  one: the field still holds 26, not 29. The function does store the new length in the
  header, and then copies the first \<^verbatim>\<open>off_member\<close> bytes of the old buffer over it. The
  same happens on the kernel frame \<open>net_frame\<close>, the kind of frame the callers rewrite:
  110 bytes become 113, the 40 bytes under the header view stay as they were.
\<close>

theorem replace_member_properties_len_stale:
  "uevent_parse (zeroed (udev_frame @ replicate 14 NUL) (length udev_frame)) 40 = Some udev_event \<and>
   field_str udev_event (interface udev_event) = ''eth5'' \<and>
   bytes_word False (nlh_properties_len (raw udev_event)) = 26 \<and>
   map_option (\<lambda>e. (msg_len e, bytes_word False (nlh_properties_len (raw e)),
                     take 40 (raw e) = take 40 (raw udev_event),
                     take 18 (drop 51 (raw e))))
     (uevent_replace_member False (mem_new_uevent example_env) udev_event 61 ''cmleth0'')
   = Some (69, 26, True, ''INTERFACE=cmleth0'' @ [NUL]) \<and>
   map_option (\<lambda>e. (msg_len e, nlh_properties_len (raw e) = nlh_properties_len (raw net_event),
                     take 40 (raw e) = take 40 (raw net_event)))
     (uevent_replace_member False (mem_new_uevent example_env) net_event 93 ''cmleth0'')
   = Some (113, True, True)"
  by code_simp

text \<open>
  C4 (what the code does at one input). For the add event of \<^verbatim>\<open>eth5\<close>, with the rename on
  the host succeeding, \<^verbatim>\<open>uevent_rename_interface\<close> builds the new device path
  \<^verbatim>\<open>/devices/pci0/net/cml0\<close> and a second event that carries it, but returns the first
  event, in which only \<^verbatim>\<open>INTERFACE\<close> is rewritten: its \<^verbatim>\<open>DEVPATH\<close> still ends in \<^verbatim>\<open>eth5\<close>. The
  new name is \<^verbatim>\<open>cml\<close>, the \<^verbatim>\<open>DEVTYPE\<close> of the event (empty for an ethernet device) and the
  counter.
\<close>

theorem rename_interface_keeps_devpath:
  "uevent_parse (zeroed (net_frame @ replicate 18 NUL) (length net_frame)) 0 = Some net_event \<and>
   field_str net_event (interface net_event) = ''eth5'' \<and>
   field_str net_event (devpath net_event) = ''/devices/pci0/net/eth5'' \<and>
   uevent_replace_devpath_new ''/devices/pci0/net/eth5'' ''eth5'' ''cml0''
     = Some ''/devices/pci0/net/cml0'' \<and>
   map_option (\<lambda>(ne, st). (map_option (\<lambda>e. (field_str e (interface e), field_str e (devpath e))) ne,
                            effects st))
     (uevent_rename_interface example_env net_event example_router)
   = Some (Some (''cml0'', ''/devices/pci0/net/eth5''),
           [Rename_ifi ''eth5'' ''cml0'', Netif_phys_remove ''eth5'', Netif_phys_add ''cml0''])"
  by code_simp

lemma usb_event_fields:
  "field_str usb_event (subsystem usb_event) = ''usb''"
  "field_str usb_event (devtype usb_event) = ''usb_device''"
  "field_str usb_event (action usb_event) = ''add''"
  "field_str usb_event (devpath usb_event) = ''/devices/pci0000:00/0000:00:14.0/usb1''"
  "field_str usb_event (product usb_event) = ''1d6b/2/410''"
  "major usb_event = 189" "minor usb_event = 3"
  "id_vendor_id usb_event = 0" "id_model_id usb_event = 0"
  by code_simp+

lemma usb_event_ids:
  "uevent_get_usb_vendor usb_event = 0x1d6b" "uevent_get_usb_product usb_event = 2"
  by (simp_all add: uevent_get_usb_vendor_def uevent_get_usb_product_def usb_event_fields
      scan_hx_def isspace_def xdigit_val_def)

lemma usb_frame_parse: "uevent_parse (zeroed usb_frame 205) 42 = Some usb_event"
  by code_simp

lemma usb_frame_length: "length usb_frame = 205 \<and> length (cstr usb_frame) + 1 = 42"
  by code_simp

text \<open>
  C7. The table holds the one mapping that registering the device
  \<^verbatim>\<open>{vendor 0x1d6b, product 0x0002, serial "0000:00:14.0", assign false}\<close> for container
  \<open>c1\<close> leaves in an empty table. The kernel frame \<open>usb_frame\<close> (205 bytes, header line
  of 41 characters) is an add event with \<^verbatim>\<open>SUBSYSTEM=usb\<close>, \<^verbatim>\<open>DEVTYPE=usb_device\<close>,
  \<^verbatim>\<open>MAJOR=189\<close>, \<^verbatim>\<open>MINOR=3\<close> and \<^verbatim>\<open>PRODUCT=1d6b/2/410\<close>; parsed behind its header line it
  gives \<open>usb_event\<close>. When the serial file of the device exists and reads
  \<^verbatim>\<open>0000:00:14.0\<close> followed by a newline, and the token subsystem does not claim the
  device, \<^verbatim>\<open>uevent_handle_usb_device\<close> returns false, calls \<^verbatim>\<open>container_device_allow\<close>
  once, as \<^verbatim>\<open>(c1, 189, 3, false)\<close>, and leaves 189 and 3 in the mapping.
\<close>

theorem usb_add_allows_once:
  assumes "file_exists env ''/sys//devices/pci0000:00/0000:00:14.0/usb1/serial''"
    and "file_read_new env ''/sys//devices/pci0000:00/0000:00:14.0/usb1/serial'' 255
           = Some (''0000:00:14.0'' @ [CHR 0x0A])"
    and "cmld_token_attach env ''0000:00:14.0'' ''/devices/pci0000:00/0000:00:14.0/usb1'' \<noteq> 0"
    and "uevent_container_dev_mapping_list st =
           snd (uevent_register_usbdevice c1 (uevent_usbdev_new ty 0x1d6b 2 ''0000:00:14.0'' False) [])"
  shows "uevent_parse (zeroed usb_frame (length usb_frame)) (length (cstr usb_frame) + 1)
           = Some usb_event \<and>
         uevent_handle_usb_device env usb_event st =
           (False,
            st\<lparr>uevent_container_dev_mapping_list :=
                  [uevent_container_dev_mapping_new c1
                     ((uevent_usbdev_new ty 0x1d6b 2 ''0000:00:14.0'' False)
                        \<lparr>usb_major := 189, usb_minor := 3\<rparr>)],
                effects := effects st @
                  [Token_attach ''0000:00:14.0'' ''/devices/pci0000:00/0000:00:14.0/usb1'',
                   Device_allow c1 189 3 False]\<rparr>)"
  using assms usb_frame_parse usb_frame_length
  by (simp add: uevent_handle_usb_device_def usb_event_fields usb_event_ids strncmp0_def cstr_def
      emit_def uevent_container_dev_mapping_new_def uevent_usbdev_new_def Let_def
      uevent_register_usbdevice_def list_append_def)

theorem usb_add_allows_once_witness:
  "uevent_handle_usb_device example_env usb_event example_router =
     (False,
      example_router\<lparr>uevent_container_dev_mapping_list :=
            [uevent_container_dev_mapping_new 1
               ((uevent_usbdev_new 1 0x1d6b 2 ''0000:00:14.0'' False)
                  \<lparr>usb_major := 189, usb_minor := 3\<rparr>)],
          effects := effects example_router @
            [Token_attach ''0000:00:14.0'' ''/devices/pci0000:00/0000:00:14.0/usb1'',
             Device_allow 1 189 3 False]\<rparr>)"
proof -
  have 1: "file_exists example_env ''/sys//devices/pci0000:00/0000:00:14.0/usb1/serial''"
    by (simp add: example_env_def)
  have 2: "file_read_new example_env ''/sys//devices/pci0000:00/0000:00:14.0/usb1/serial'' 255
             = Some (''0000:00:14.0'' @ [CHR 0x0A])"
    by (simp add: example_env_def)
  have 3: "cmld_token_attach example_env ''0000:00:14.0''
             ''/devices/pci0000:00/0000:00:14.0/usb1'' \<noteq> 0"
    by (simp add: example_env_def)
  have 4: "uevent_container_dev_mapping_list example_router =
             snd (uevent_register_usbdevice 1 (uevent_usbdev_new 1 0x1d6b 2 ''0000:00:14.0'' False) [])"
    by (simp add: example_router_def)
  show ?thesis
    using usb_add_allows_once [OF 1 2 3 4] by blast
qed

lemma rcv_buf_slice:
  "a + n \<le> length bs \<Longrightarrow> length bs < UEVENT_BUF_LEN \<Longrightarrow>
   take n (drop a (rcv_buf bs)) = take n (drop a bs)"
  by (simp add: rcv_buf_def)

text \<open>
  C8. When the received message passes the handler's test for a udev frame (the
  \<^verbatim>\<open>strncmp\<close> of the header prefix with \<^verbatim>\<open>"libudev"\<close> over the message length) and the
  four bytes of its magic field are not \<^verbatim>\<open>FE ED CA FE\<close>, \<^verbatim>\<open>uevent_handle\<close> returns with
  one warning logged and nothing else done: both routing tables and the rename
  counters are as before, and no rename, attach, injection, device policy call, token
  call, node creation, directory creation or unlink has happened.
\<close>

theorem uevent_handle_bad_magic:
  assumes "strncmp0 (nlh_prefix (rcv_buf rcv_bytes)) ''libudev'' (nat (rcv_rc mod 2 ^ 64))"
    and "nlh_magic (rcv_buf rcv_bytes) \<noteq> UDEV_MONITOR_MAGIC_be"
  shows "uevent_handle env rcv_rc rcv_bytes st = Some (st\<lparr>effects := effects st @ [Log_warn]\<rparr>)"
  using assms by (simp add: uevent_handle_def Let_def zeroed_def emit_def)

theorem uevent_handle_bad_magic_witness:
  "uevent_handle example_env 51 bad_udev_msg example_router
     = Some (example_router\<lparr>effects := effects example_router @ [Log_warn]\<rparr>)"
proof -
  have len: "length bad_udev_msg = 51"
    by (simp add: bad_udev_msg_def)
  have 1: "strncmp0 (nlh_prefix (rcv_buf bad_udev_msg)) ''libudev'' (nat (51 mod 2 ^ 64))"
    using rcv_buf_slice [of 0 8 bad_udev_msg]
    by (simp add: nlh_prefix_def len UEVENT_BUF_LEN_def)
       (simp add: bad_udev_msg_def strncmp0_def cstr_def)
  have 2: "nlh_magic (rcv_buf bad_udev_msg) \<noteq> UDEV_MONITOR_MAGIC_be"
    using rcv_buf_slice [of 8 4 bad_udev_msg]
    by (simp add: nlh_magic_def len UEVENT_BUF_LEN_def)
       (simp add: bad_udev_msg_def UDEV_MONITOR_MAGIC_be_def)
  show ?thesis
    using uevent_handle_bad_magic [OF 1 2] .
qed

end
